theory Spec2Isabelle
  imports Complex_Main "HOL-Library.Log_Nat"
begin

section \<open>JavaScript numbers\<close>

text \<open>
  Every number of the program is an IEEE 754 binary64 value.  A finite value is modelled by
  the rational it denotes, and each arithmetic operation computes the exact rational result
  and rounds it to the nearest binary64 value, ties to even (\<open>fl\<close>).  The rounding covers the
  normal and the subnormal range (the unit in the last place never goes below \<open>2^-1074\<close>).
  Overflow to \<open>Infinity\<close> is not part of \<open>fl\<close>: the operands of the program are bounded by
  their column types (32 and 64 bit integers, \<open>numeric(5,2)\<close>, scores clamped to 0..100), far
  below \<open>2^1024\<close>.  Signed zeros are not distinguished.  Division is the one operation of the
  program that can leave the finite range (a zero divisor), so it returns a \<open>jsnum\<close>.

  Integer columns are modelled by \<open>int\<close>: sums and differences of integers are exact in
  binary64 below \<open>2^53\<close>, which the totals of 32 bit sizes stay under.
\<close>

definition pow2 :: "int \<Rightarrow> rat" where
  "pow2 e = (if 0 \<le> e then 2 ^ nat e else 1 / 2 ^ nat (- e))"

definition rne :: "rat \<Rightarrow> int" where
  "rne m = (let f = \<lfloor>m\<rfloor>; r = m - of_int f in
     if r < 1 / 2 then f else if 1 / 2 < r then f + 1 else if even f then f else f + 1)"

definition binade :: "rat \<Rightarrow> int" where
  "binade q = (if 1 \<le> \<bar>q\<bar> then bitlen \<lfloor>\<bar>q\<bar>\<rfloor> - 1 else - bitlen (\<lceil>1 / \<bar>q\<bar>\<rceil> - 1))"

definition ulp_exp :: "rat \<Rightarrow> int" where
  "ulp_exp q = max (binade q - 52) (- 1074)"

definition fl :: "rat \<Rightarrow> rat" where
  "fl q = of_int (rne (q / pow2 (ulp_exp q))) * pow2 (ulp_exp q)"

definition js_add :: "rat \<Rightarrow> rat \<Rightarrow> rat" where
  "js_add a b = fl (a + b)"

definition js_sub :: "rat \<Rightarrow> rat \<Rightarrow> rat" where
  "js_sub a b = fl (a - b)"

definition js_mul :: "rat \<Rightarrow> rat \<Rightarrow> rat" where
  "js_mul a b = fl (a * b)"

datatype jsnum = Num rat | PosInfinity | NegInfinity | NaN

definition js_div :: "rat \<Rightarrow> rat \<Rightarrow> jsnum" where
  "js_div a b =
     (if b = 0 then (if a = 0 then NaN else if 0 < a then PosInfinity else NegInfinity)
      else Num (fl (a / b)))"

text \<open>\<open>x * c\<close> for a finite \<open>c\<close>, \<open>x > c\<close>, \<open>Math.floor(x)\<close> and \<open>x || d\<close> on a \<open>jsnum\<close>.\<close>

definition jsnum_times :: "jsnum \<Rightarrow> rat \<Rightarrow> jsnum" where
  "jsnum_times x c =
     (case x of
        Num r \<Rightarrow> Num (fl (r * c))
      | PosInfinity \<Rightarrow> (if 0 < c then PosInfinity else if c < 0 then NegInfinity else NaN)
      | NegInfinity \<Rightarrow> (if 0 < c then NegInfinity else if c < 0 then PosInfinity else NaN)
      | NaN \<Rightarrow> NaN)"

definition jsnum_gt :: "jsnum \<Rightarrow> rat \<Rightarrow> bool" where
  "jsnum_gt x c = (case x of Num r \<Rightarrow> c < r | PosInfinity \<Rightarrow> True | _ \<Rightarrow> False)"

definition jsnum_floor :: "jsnum \<Rightarrow> jsnum" where
  "jsnum_floor x = (case x of Num r \<Rightarrow> Num (of_int \<lfloor>r\<rfloor>) | _ \<Rightarrow> x)"

text \<open>\<open>x || d\<close> on a nullable number: \<open>null\<close> and \<open>0\<close> are falsy.\<close>

definition or_default :: "rat option \<Rightarrow> rat \<Rightarrow> rat" where
  "or_default x d = (case x of None \<Rightarrow> d | Some v \<Rightarrow> if v = 0 then d else v)"

section \<open>Semantic valuation (the analyze-semantic handler) and the weights form\<close>

record semantic_scores =
  relevance :: rat
  uniqueness :: rat
  reconstructability :: rat
  semanticScore :: rat

text \<open>
  The handler clamps the three scores of the tool call with
  \<open>Math.min(100, Math.max(0, x))\<close> and combines them with the literals 0.4, 0.35 and 0.25.
  It takes no weights.
\<close>

definition clamp_score :: "rat \<Rightarrow> rat" where
  "clamp_score x = min 100 (max 0 x)"

definition weighted_score :: "rat \<Rightarrow> rat \<Rightarrow> rat \<Rightarrow> rat" where
  "weighted_score r u c =
     js_add (js_add (js_mul r (fl (2 / 5))) (js_mul u (fl (7 / 20)))) (js_mul c (fl (1 / 4)))"

definition analyze_scores :: "rat \<Rightarrow> rat \<Rightarrow> rat \<Rightarrow> semantic_scores" where
  "analyze_scores arg_relevance arg_uniqueness arg_reconstructability =
     (let scores = \<lparr> relevance = clamp_score arg_relevance,
                      uniqueness = clamp_score arg_uniqueness,
                      reconstructability = clamp_score arg_reconstructability,
                      semanticScore = 0 \<rparr>
      in scores\<lparr> semanticScore :=
           weighted_score (relevance scores) (uniqueness scores) (reconstructability scores) \<rparr>)"

record weights =
  weight_relevance :: rat
  weight_uniqueness :: rat
  weight_reconstructability :: rat

record normalized_weights =
  norm_relevance :: jsnum
  norm_uniqueness :: jsnum
  norm_reconstructability :: jsnum

text \<open>\<open>handleSaveWeights\<close> of the settings page: the triple it writes to \<open>valuation_weights\<close>.\<close>

definition handleSaveWeights :: "weights \<Rightarrow> normalized_weights" where
  "handleSaveWeights w =
     (let total = js_add (js_add (weight_relevance w) (weight_uniqueness w))
                         (weight_reconstructability w)
      in \<lparr> norm_relevance = js_div (weight_relevance w) total,
           norm_uniqueness = js_div (weight_uniqueness w) total,
           norm_reconstructability = js_div (weight_reconstructability w) total \<rparr>)"

section \<open>Data model\<close>

datatype degradation_stage = FULL | COMPRESSED | SUMMARIZED | MINIMAL | DELETED

datatype alert_severity = Info | Warning | Critical

datatype alert_type =
  storage_pressure | high_value_risk | decay_approaching | item_degraded | item_deleted

text \<open>
  Rows of \<open>archive_items\<close>, restricted to the columns the decay cycle selects, the owner and
  the original size.  \<open>current_size_kb\<close> is \<open>integer not null\<close>; \<open>semantic_score\<close> and
  \<open>val_reconstructability\<close> are nullable.
\<close>

record archive_item =
  item_id :: string
  item_owner_id :: string
  title :: string
  size_kb :: int
  current_size_kb :: int
  stage :: degradation_stage
  semantic_score :: "rat option"
  val_reconstructability :: "rat option"

record simulation_settings =
  settings_id :: string
  settings_owner_id :: string
  start_capacity_kb :: int
  current_capacity_kb :: int
  current_year :: int
  total_years :: int
  decay_percent :: rat
  decay_interval_years :: int
  is_running :: bool
  time_scale_ms :: int

record decay_event =
  event_id :: nat
  event_owner_id :: string
  event_no :: jsnum
  simulated_year :: int
  capacity_before_kb :: int
  capacity_after_kb :: int
  storage_before_kb :: int
  storage_after_kb :: int
  items_affected :: int

text \<open>
  The reason strings are template literals; a \<open>reason_text\<close> names the template and carries
  the numbers it interpolates (before \<open>toFixed\<close>).
\<close>

datatype reason_text =
    No_reason
  | Storage_usage_reason jsnum
  | Low_score_reason jsnum "rat option"
  | Reconstructability_reason rat
  | Metadata_only_reason
  | Removed_reason

record degradation_log =
  log_owner_id :: string
  decay_event_id :: "nat option"
  log_item_id :: string
  item_title :: string
  prev_stage :: degradation_stage
  new_stage :: degradation_stage
  log_reason :: reason_text
  log_semantic_score :: "rat option"
  log_storage_pressure :: jsnum
  reconstructability_score :: rat
  size_before_kb :: int
  size_after_kb :: int

text \<open>
  \<open>DecayAlert\<close> of the alert context, without its random id and its timestamp, and the row
  that \<open>addAlert\<close> writes to the \<open>alerts\<close> table (which has no severity column).
\<close>

record decay_alert =
  itemId :: "string option"
  itemTitle :: "string option"
  currentStage :: "degradation_stage option"
  targetStage :: "degradation_stage option"
  alert_semanticScore :: rat
  storagePressure :: "jsnum option"
  reason :: reason_text
  severity :: alert_severity
  alertType :: alert_type
  simulatedYear :: int
  dismissed :: bool

record alert_row =
  alert_owner_id :: string
  alert_type_col :: alert_type
  alert_item_id :: "string option"
  alert_item_title :: "string option"
  alert_semantic_score :: "rat option"
  current_stage :: "degradation_stage option"
  target_stage :: "degradation_stage option"
  alert_storage_pressure :: "jsnum option"
  alert_reason :: reason_text
  alert_simulated_year :: int

text \<open>
  The state the simulation provider works on: the signed-in user's id, the React state
  (\<open>settings\<close>, \<open>isRunning\<close>, the alert list of the alert context) and the tables of the
  store.  A write to the store always succeeds; toasts are not modelled.
\<close>

record world =
  user :: "string option"
  settings :: "simulation_settings option"
  isRunning :: bool
  alerts :: "decay_alert list"
  simulation_settings_table :: "simulation_settings list"
  archive_items :: "archive_item list"
  decay_events :: "decay_event list"
  degradation_logs :: "degradation_log list"
  alerts_table :: "alert_row list"

section \<open>The alert context\<close>

definition or_null_string :: "string option \<Rightarrow> string option" where
  "or_null_string x = (case x of None \<Rightarrow> None | Some s \<Rightarrow> if s = [] then None else Some s)"

definition or_null_number :: "rat \<Rightarrow> rat option" where
  "or_null_number x = (if x = 0 then None else Some x)"

definition or_null_jsnum :: "jsnum option \<Rightarrow> jsnum option" where
  "or_null_jsnum x =
     (case x of None \<Rightarrow> None
      | Some v \<Rightarrow> if v = Num 0 \<or> v = NaN then None else Some v)"

definition alert_row_of :: "string \<Rightarrow> decay_alert \<Rightarrow> alert_row" where
  "alert_row_of uid alert =
     \<lparr> alert_owner_id = uid,
       alert_type_col = alertType alert,
       alert_item_id = or_null_string (itemId alert),
       alert_item_title = or_null_string (itemTitle alert),
       alert_semantic_score = or_null_number (alert_semanticScore alert),
       current_stage = currentStage alert,
       target_stage = targetStage alert,
       alert_storage_pressure = or_null_jsnum (storagePressure alert),
       alert_reason = reason alert,
       alert_simulated_year = simulatedYear alert \<rparr>"

definition addAlert :: "decay_alert \<Rightarrow> world \<Rightarrow> world" where
  "addAlert alert w =
     (case user w of
        None \<Rightarrow> w
      | Some uid \<Rightarrow>
          w\<lparr> alerts := alert\<lparr> dismissed := False \<rparr> # take 99 (alerts w),
             alerts_table := alerts_table w @ [alert_row_of uid alert] \<rparr>)"

section \<open>The decay cycle\<close>

text \<open>
  The query of \<open>processDecayEvent\<close>: the owner's rows whose stage is not \<open>DELETED\<close>, ordered
  by \<open>semantic_score\<close> ascending.  PostgreSQL puts nulls last in ascending order and leaves
  the order of equal keys open; the model keeps equal keys in table order.
\<close>

definition order_by_semantic_score :: "archive_item list \<Rightarrow> archive_item list" where
  "order_by_semantic_score rows =
     sort_key (\<lambda>item. the (semantic_score item)) (filter (\<lambda>item. semantic_score item \<noteq> None) rows)
     @ filter (\<lambda>item. semantic_score item = None) rows"

definition select_items :: "string \<Rightarrow> archive_item list \<Rightarrow> archive_item list" where
  "select_items uid rows =
     order_by_semantic_score
       (filter (\<lambda>item. item_owner_id item = uid \<and> stage item \<noteq> DELETED) rows)"

text \<open>
  \<open>[...items].sort((a, b) => (a.semantic_score || 0) - (b.semantic_score || 0))\<close>:
  \<open>Array.prototype.sort\<close> is stable, and the sign of the difference of two binary64 values
  is the sign of their exact difference.
\<close>

definition sortedItems :: "archive_item list \<Rightarrow> archive_item list" where
  "sortedItems items = sort_key (\<lambda>item. or_default (semantic_score item) 0) items"

text \<open>The \<open>switch (prevStage)\<close>: the next stage, the new size and the reason.\<close>

definition next_degradation ::
  "degradation_stage \<Rightarrow> int \<Rightarrow> jsnum \<Rightarrow> rat option \<Rightarrow> rat \<Rightarrow> degradation_stage \<times> int \<times> reason_text"
where
  "next_degradation prevStage currentSize itemStoragePressure score reconstructability_val =
     (case prevStage of
        FULL \<Rightarrow> (COMPRESSED, \<lfloor>js_mul (of_int currentSize) (fl (7 / 10))\<rfloor>,
                 Low_score_reason itemStoragePressure score)
      | COMPRESSED \<Rightarrow> (SUMMARIZED, \<lfloor>js_mul (of_int currentSize) (fl (3 / 10))\<rfloor>,
                       Reconstructability_reason reconstructability_val)
      | SUMMARIZED \<Rightarrow> (MINIMAL, \<lfloor>js_mul (of_int currentSize) (fl (1 / 10))\<rfloor>, Metadata_only_reason)
      | MINIMAL \<Rightarrow> (DELETED, 0, Removed_reason)
      | DELETED \<Rightarrow> (DELETED, currentSize, No_reason))"

definition alert_severity_of :: "rat option \<Rightarrow> degradation_stage \<Rightarrow> alert_severity" where
  "alert_severity_of score newStage =
     (if 70 < or_default score 0 then (if newStage = DELETED then Critical else Warning)
      else if newStage = DELETED then Warning
      else Info)"

definition alert_type_of :: "rat option \<Rightarrow> degradation_stage \<Rightarrow> alert_type" where
  "alert_type_of score newStage =
     (if newStage = DELETED then item_deleted
      else if 80 \<le> or_default score 0 then high_value_risk
      else item_degraded)"

definition update_item :: "string \<Rightarrow> degradation_stage \<Rightarrow> int \<Rightarrow> archive_item list \<Rightarrow> archive_item list" where
  "update_item i newStage newSize rows =
     map (\<lambda>row. if item_id row = i then row\<lparr> stage := newStage, current_size_kb := newSize \<rparr> else row) rows"

text \<open>
  The alert of one transition: \<open>addAlert\<close> is called only for a high-value item or a
  deletion.
\<close>

definition transition_alert ::
  "int \<Rightarrow> archive_item \<Rightarrow> degradation_stage \<Rightarrow> reason_text \<Rightarrow> jsnum \<Rightarrow> decay_alert option"
where
  "transition_alert newYear item newStage reason_val itemStoragePressure =
     (let isHighValue = (80 \<le> or_default (semantic_score item) 0) in
      if isHighValue \<or> newStage = DELETED then
        Some \<lparr> itemId = Some (item_id item),
               itemTitle = Some (title item),
               currentStage = Some (stage item),
               targetStage = Some newStage,
               alert_semanticScore = or_default (semantic_score item) 0,
               storagePressure = Some itemStoragePressure,
               reason = reason_val,
               severity = alert_severity_of (semantic_score item) newStage,
               alertType = alert_type_of (semantic_score item) newStage,
               simulatedYear = newYear,
               dismissed = False \<rparr>
      else None)"

definition degradation_log_of ::
  "string \<Rightarrow> nat option \<Rightarrow> archive_item \<Rightarrow> degradation_stage \<Rightarrow> int \<Rightarrow> reason_text \<Rightarrow> jsnum \<Rightarrow> rat
     \<Rightarrow> degradation_log"
where
  "degradation_log_of uid decayEventId item newStage newSize reason_val itemStoragePressure
       reconstructability_val =
     \<lparr> log_owner_id = uid,
       decay_event_id = decayEventId,
       log_item_id = item_id item,
       item_title = title item,
       prev_stage = stage item,
       new_stage = newStage,
       log_reason = reason_val,
       log_semantic_score = semantic_score item,
       log_storage_pressure = itemStoragePressure,
       reconstructability_score = reconstructability_val,
       size_before_kb = current_size_kb item,
       size_after_kb = newSize \<rparr>"

record cycle_state =
  cycle_world :: world
  currentStorage :: int
  itemsAffected :: int

text \<open>One iteration of the \<open>for\<close> loop, after the \<open>break\<close> test.\<close>

definition degrade_item ::
  "string \<Rightarrow> int \<Rightarrow> int \<Rightarrow> nat option \<Rightarrow> archive_item \<Rightarrow> cycle_state \<Rightarrow> cycle_state"
where
  "degrade_item uid capacityAfter newYear decayEventId item st =
     (let prevStage = stage item;
          itemStoragePressure =
            jsnum_times (js_div (of_int (currentStorage st)) (of_int capacityAfter)) 100;
          reconstructability_val = or_default (val_reconstructability item) 50;
          (newStage, newSize, reason_val) =
            next_degradation prevStage (current_size_kb item) itemStoragePressure
              (semantic_score item) reconstructability_val
      in if newStage \<noteq> prevStage then
           let w1 = (case transition_alert newYear item newStage reason_val itemStoragePressure of
                       Some alert \<Rightarrow> addAlert alert (cycle_world st)
                     | None \<Rightarrow> cycle_world st);
               w2 = w1\<lparr> archive_items :=
                          update_item (item_id item) newStage newSize (archive_items w1) \<rparr>;
               w3 = w2\<lparr> degradation_logs := degradation_logs w2 @
                          [degradation_log_of uid decayEventId item newStage newSize reason_val
                             itemStoragePressure reconstructability_val] \<rparr>
           in \<lparr> cycle_world = w3,
                currentStorage = currentStorage st - (current_size_kb item - newSize),
                itemsAffected = itemsAffected st + 1 \<rparr>
         else st)"

fun degrade_loop ::
  "string \<Rightarrow> int \<Rightarrow> int \<Rightarrow> nat option \<Rightarrow> archive_item list \<Rightarrow> cycle_state \<Rightarrow> cycle_state"
where
  "degrade_loop uid capacityAfter newYear decayEventId [] st = st"
| "degrade_loop uid capacityAfter newYear decayEventId (item # rest) st =
     (if currentStorage st \<le> capacityAfter then st
      else degrade_loop uid capacityAfter newYear decayEventId rest
             (degrade_item uid capacityAfter newYear decayEventId item st))"

text \<open>\<open>Math.floor(capacityBefore * (1 - settings.decay_percent / 100))\<close>.\<close>

definition decayed_capacity :: "int \<Rightarrow> rat \<Rightarrow> int" where
  "decayed_capacity capacityBefore percent =
     \<lfloor>js_mul (of_int capacityBefore) (js_sub 1 (fl (percent / 100)))\<rfloor>"

definition new_event_id :: "decay_event list \<Rightarrow> nat" where
  "new_event_id events = Suc (foldr max (map event_id events) 0)"

definition update_settings_row ::
  "string \<Rightarrow> (simulation_settings \<Rightarrow> simulation_settings) \<Rightarrow> simulation_settings list \<Rightarrow> simulation_settings list"
where
  "update_settings_row i f rows = map (\<lambda>row. if settings_id row = i then f row else row) rows"

text \<open>The system alert raised before the loop.\<close>

definition storage_pressure_alert :: "int \<Rightarrow> jsnum \<Rightarrow> decay_alert" where
  "storage_pressure_alert newYear pressure =
     \<lparr> itemId = None,
       itemTitle = Some ''System Alert'',
       currentStage = None,
       targetStage = None,
       alert_semanticScore = 0,
       storagePressure = Some pressure,
       reason = Storage_usage_reason pressure,
       severity = (if jsnum_gt pressure 100 then Critical else Warning),
       alertType = storage_pressure,
       simulatedYear = newYear,
       dismissed = False \<rparr>"

text \<open>
  The block \<open>if (items && currentStorage > capacityAfter) { ... }\<close> with the two counters
  declared before it: the storage alert, then the loop over the sorted items.
\<close>

definition degradation_phase ::
  "string \<Rightarrow> int \<Rightarrow> int \<Rightarrow> nat \<Rightarrow> archive_item list \<Rightarrow> int \<Rightarrow> world \<Rightarrow> cycle_state"
where
  "degradation_phase uid capacityAfter newYear decayEventId items storageBefore w1 =
     (let st0 = \<lparr> cycle_world = w1, currentStorage = storageBefore, itemsAffected = 0 \<rparr> in
      if capacityAfter < storageBefore then
        let pressure = jsnum_times (js_div (of_int storageBefore) (of_int capacityAfter)) 100;
            w2 = (if jsnum_gt pressure 80
                  then addAlert (storage_pressure_alert newYear pressure) w1
                  else w1)
        in degrade_loop uid capacityAfter newYear (Some decayEventId) (sortedItems items)
             (st0\<lparr> cycle_world := w2 \<rparr>)
      else st0)"

definition processDecayEvent :: "world \<Rightarrow> world" where
  "processDecayEvent w =
     (case settings w of
        None \<Rightarrow> w
      | Some s \<Rightarrow>
         (case user w of
            None \<Rightarrow> w
          | Some uid \<Rightarrow>
             (let newYear = current_year s + decay_interval_years s in
              if total_years s < newYear then
                w\<lparr> isRunning := False,
                   simulation_settings_table :=
                     update_settings_row (settings_id s) (\<lambda>row. row\<lparr> is_running := False \<rparr>)
                       (simulation_settings_table w) \<rparr>
              else
                let capacityBefore = current_capacity_kb s;
                    capacityAfter = decayed_capacity capacityBefore (decay_percent s);
                    eventNo = jsnum_floor (js_div (of_int newYear) (of_int (decay_interval_years s)));
                    items = select_items uid (archive_items w);
                    storageBefore = sum_list (map current_size_kb items);
                    decayEventId = new_event_id (decay_events w);
                    w1 = w\<lparr> decay_events := decay_events w @
                            [\<lparr> event_id = decayEventId,
                               event_owner_id = uid,
                               event_no = eventNo,
                               simulated_year = newYear,
                               capacity_before_kb = capacityBefore,
                               capacity_after_kb = capacityAfter,
                               storage_before_kb = storageBefore,
                               storage_after_kb = storageBefore,
                               items_affected = 0 \<rparr>] \<rparr>;
                    st1 = degradation_phase uid capacityAfter newYear decayEventId items
                            storageBefore w1;
                    w3 = cycle_world st1;
                    w4 = w3\<lparr> decay_events :=
                            map (\<lambda>e. if event_id e = decayEventId
                                      then e\<lparr> storage_after_kb := currentStorage st1,
                                              items_affected := itemsAffected st1 \<rparr>
                                      else e) (decay_events w3) \<rparr>;
                    w5 = w4\<lparr> simulation_settings_table :=
                            update_settings_row (settings_id s)
                              (\<lambda>row. row\<lparr> current_year := newYear, current_capacity_kb := capacityAfter \<rparr>)
                              (simulation_settings_table w4) \<rparr>
                in w5\<lparr> settings :=
                         map_option (\<lambda>prev. prev\<lparr> current_year := newYear,
                                                  current_capacity_kb := capacityAfter \<rparr>)
                           (settings w5) \<rparr>)))"

section \<open>The controls\<close>

text \<open>
  \<open>startSimulation\<close> and \<open>pauseSimulation\<close> set the flag of the context.  Each also builds
  an \<open>update\<close> of the settings row, but the query is neither awaited nor given a \<open>then\<close>
  callback; the query builder sends its request only when it is awaited, so the row of the
  store keeps its \<open>is_running\<close>.
\<close>

definition startSimulation :: "world \<Rightarrow> world" where
  "startSimulation w =
     (case settings w of
        None \<Rightarrow> w
      | Some s \<Rightarrow> w\<lparr> isRunning := True \<rparr>)"

definition pauseSimulation :: "world \<Rightarrow> world" where
  "pauseSimulation w =
     (case settings w of
        None \<Rightarrow> w
      | Some s \<Rightarrow> w\<lparr> isRunning := False \<rparr>)"

definition stepNextDecay :: "world \<Rightarrow> world" where
  "stepNextDecay w = processDecayEvent w"

text \<open>
  The Step button of \<open>SimulationControls\<close>: \<open>onClick={stepNextDecay}\<close> with
  \<open>disabled={isRunning}\<close>; a disabled button does not call its handler.
\<close>

definition step_button_click :: "world \<Rightarrow> world" where
  "step_button_click w = (if isRunning w then w else stepNextDecay w)"

section \<open>Example states\<close>

text \<open>The settings row that \<open>initializeSimulation\<close> inserts, and states built around it.\<close>

definition initial_settings :: simulation_settings where
  "initial_settings =
     \<lparr> settings_id = ''s1'', settings_owner_id = ''u1'', start_capacity_kb = 1000000,
       current_capacity_kb = 1000000, current_year = 0, total_years = 60, decay_percent = 5,
       decay_interval_years = 2, is_running = False, time_scale_ms = 1000 \<rparr>"

definition example_item ::
  "string \<Rightarrow> int \<Rightarrow> degradation_stage \<Rightarrow> rat option \<Rightarrow> archive_item" where
  "example_item i sz st sc =
     \<lparr> item_id = i, item_owner_id = ''u1'', title = i, size_kb = sz, current_size_kb = sz,
       stage = st, semantic_score = sc, val_reconstructability = Some 50 \<rparr>"

definition example_world :: "simulation_settings \<Rightarrow> bool \<Rightarrow> archive_item list \<Rightarrow> world" where
  "example_world s running rows =
     \<lparr> user = Some ''u1'', settings = Some s, isRunning = running, alerts = [],
       simulation_settings_table = [s], archive_items = rows, decay_events = [],
       degradation_logs = [], alerts_table = [] \<rparr>"



text \<open>
  States for the alerts: a MINIMAL item of score 85 under pressure (capacity 100 KB decaying
  to 50 KB); a FULL item of score 85 and a MINIMAL item of score 70 under pressure (capacity
  200 KB decaying to 100 KB); a FULL item of score 10 followed in the table by a MINIMAL and
  a FULL item that were never scored, under pressure; and a FULL item of 900 KB against a
  capacity that decays from 2000 KB to 1000 KB, which is a storage ratio of 0.9.
\<close>

definition high_value_world :: world where
  "high_value_world =
     example_world (initial_settings\<lparr> current_capacity_kb := 100, decay_percent := 50 \<rparr>) False
       [example_item ''h'' 100 MINIMAL (Some 85)]"

definition severity_world :: world where
  "severity_world =
     example_world (initial_settings\<lparr> current_capacity_kb := 200, decay_percent := 50 \<rparr>) False
       [example_item ''a'' 1000 FULL (Some 85), example_item ''b'' 100 MINIMAL (Some 70)]"


definition ninety_percent_world :: world where
  "ninety_percent_world =
     example_world (initial_settings\<lparr> current_capacity_kb := 2000, decay_percent := 50 \<rparr>) False
       [example_item ''a'' 900 FULL (Some 10)]"


text \<open>A FULL item of 90 KB against a capacity that decays from 100 KB to 50 KB.\<close>

definition ninety_kb_world :: world where
  "ninety_kb_world =
     example_world (initial_settings\<lparr> current_capacity_kb := 100, decay_percent := 50 \<rparr>) False
       [example_item ''f'' 90 FULL (Some 10)]"

text \<open>
  One item at each stage that has a successor, each of 1000 KB now whatever its original
  size, and a DELETED row, against a capacity that decays from 2000 KB to 1000 KB: all four
  edges are taken in one cycle.
\<close>

definition four_stage_world :: world where
  "four_stage_world =
     example_world (initial_settings\<lparr> current_capacity_kb := 2000, decay_percent := 50 \<rparr>) False
       [example_item ''f'' 1000 FULL (Some 10),
        (example_item ''c'' 1000 COMPRESSED (Some 20))\<lparr> size_kb := 1500 \<rparr>,
        (example_item ''s'' 1000 SUMMARIZED (Some 30))\<lparr> size_kb := 5000 \<rparr>,
        (example_item ''m'' 1000 MINIMAL (Some 40))\<lparr> size_kb := 50000 \<rparr>,
        (example_item ''d'' 1000 DELETED (Some 5))\<lparr> current_size_kb := 0 \<rparr>]"

section \<open>Notions used to state the properties\<close>

text \<open>The position of a stage in the order FULL, COMPRESSED, SUMMARIZED, MINIMAL, DELETED.\<close>

fun stage_rank :: "degradation_stage \<Rightarrow> nat" where
  "stage_rank FULL = 0"
| "stage_rank COMPRESSED = 1"
| "stage_rank SUMMARIZED = 2"
| "stage_rank MINIMAL = 3"
| "stage_rank DELETED = 4"

text \<open>
  The stage and the size that the \<open>switch\<close> assigns to an item; they do not depend on the
  storage pressure (lemma \<open>next_degradation_eq\<close>).
\<close>

definition next_stage :: "degradation_stage \<Rightarrow> degradation_stage" where
  "next_stage ps = fst (next_degradation ps 0 NaN None 0)"

definition next_size :: "archive_item \<Rightarrow> int" where
  "next_size item = fst (snd (next_degradation (stage item) (current_size_kb item) NaN None 0))"

definition apply_degradation :: "archive_item list \<Rightarrow> archive_item \<Rightarrow> archive_item list" where
  "apply_degradation rows item =
     update_item (item_id item) (next_stage (stage item)) (next_size item) rows"

definition degraded :: "archive_item \<Rightarrow> archive_item" where
  "degraded item = item\<lparr> stage := next_stage (stage item), current_size_kb := next_size item \<rparr>"

text \<open>\<open>logged_as uid ev item l\<close>: \<open>l\<close> is the log entry of the transition of \<open>item\<close>.\<close>

definition logged_as :: "string \<Rightarrow> nat option \<Rightarrow> archive_item \<Rightarrow> degradation_log \<Rightarrow> bool" where
  "logged_as uid ev item l =
     (l = degradation_log_of uid ev item (next_stage (stage item)) (next_size item)
            (log_reason l) (log_storage_pressure l)
            (or_default (val_reconstructability item) 50))"

text \<open>
  \<open>raises_alert item\<close>: the transition of \<open>item\<close> calls \<open>addAlert\<close>;
  \<open>alert_of_item yr item a\<close>: \<open>a\<close> is the alert of that transition.
\<close>

definition raises_alert :: "archive_item \<Rightarrow> bool" where
  "raises_alert item =
     (80 \<le> or_default (semantic_score item) 0 \<or> next_stage (stage item) = DELETED)"

definition alert_of_item :: "int \<Rightarrow> archive_item \<Rightarrow> decay_alert \<Rightarrow> bool" where
  "alert_of_item yr item a =
     (transition_alert yr item (next_stage (stage item)) (reason a)
        (case storagePressure a of Some p \<Rightarrow> p | None \<Rightarrow> NaN) = Some a)"

text \<open>
  The system alert of a cycle, if any: \<open>storageBefore > capacityAfter\<close> and a pressure
  above 80.
\<close>

definition storage_alerts :: "int \<Rightarrow> int \<Rightarrow> int \<Rightarrow> decay_alert list" where
  "storage_alerts yr sb cap =
     (let pressure = jsnum_times (js_div (of_int sb) (of_int cap)) 100 in
      if cap < sb \<and> jsnum_gt pressure 80 then [storage_pressure_alert yr pressure] else [])"


text \<open>The entries that a cycle appends to \<open>degradation_logs\<close>.\<close>

definition new_logs :: "world \<Rightarrow> world \<Rightarrow> degradation_log list" where
  "new_logs w w' = drop (length (degradation_logs w)) (degradation_logs w')"

text \<open>
  The retention multipliers as the specification lists them, one for each edge of the stage
  order (FULL to COMPRESSED 0.7, COMPRESSED to SUMMARIZED 0.3, SUMMARIZED to MINIMAL 0.1,
  MINIMAL to DELETED 0).  DELETED has no outgoing edge; its entry is never used.
\<close>

fun spec_retention_multiplier :: "degradation_stage \<Rightarrow> rat" where
  "spec_retention_multiplier FULL = 7 / 10"
| "spec_retention_multiplier COMPRESSED = 3 / 10"
| "spec_retention_multiplier SUMMARIZED = 1 / 10"
| "spec_retention_multiplier MINIMAL = 0"
| "spec_retention_multiplier DELETED = 1"

text \<open>
  The valuation as the specification words it: each input clamped to 0..100, the configured
  weights divided by their sum, and the weighted sum of the three.
\<close>

definition spec_semantic_score :: "weights \<Rightarrow> rat \<Rightarrow> rat \<Rightarrow> rat \<Rightarrow> rat" where
  "spec_semantic_score w r u c =
     (let total = weight_relevance w + weight_uniqueness w + weight_reconstructability w in
      clamp_score r * (weight_relevance w / total) +
      clamp_score u * (weight_uniqueness w / total) +
      clamp_score c * (weight_reconstructability w / total))"

section \<open>Rounding to binary64\<close>

text \<open>
  The binade of a number brackets it between two powers of two, and rounding to the nearest
  binary64 value is monotone on the non-negative numbers.  This is what the bounds on the
  computed scores and pressures rest on.
\<close>

lemma pow2_powi: "pow2 e = 2 powi e"
  by (simp add: pow2_def power_int_def inverse_eq_divide power_one_over)

lemma pow2_pos [simp]: "0 < pow2 e"
  by (simp add: pow2_powi)

lemma pow2_nonneg [simp]: "0 \<le> pow2 e"
  using pow2_pos [of e] by (rule less_imp_le)

lemma pow2_numerals: "pow2 53 = 2 ^ 53" "pow2 52 = 2 ^ 52"
  by (simp_all add: pow2_def)

lemma pow2_add: "pow2 (a + b) = pow2 a * pow2 b"
  by (simp add: pow2_powi power_int_add)

lemma pow2_mono: "a \<le> b \<Longrightarrow> pow2 a \<le> pow2 b"
  by (simp add: pow2_powi power_int_increasing)

lemma pow2_less_cancel: "pow2 a < pow2 b \<Longrightarrow> a < b"
  using pow2_mono [of b a] by (cases "a < b") simp_all

lemma pow2_nat: "0 \<le> e \<Longrightarrow> pow2 e = 2 ^ nat e"
  by (simp add: pow2_def)

lemma rne_bounds: "\<lfloor>m\<rfloor> \<le> rne m" "rne m \<le> \<lfloor>m\<rfloor> + 1"
  by (simp_all add: rne_def Let_def)

lemma rne_of_int [simp]: "rne (of_int n) = n"
  by (simp add: rne_def)

lemma rne_mono:
  assumes "a \<le> b"
  shows "rne a \<le> rne b"
proof (cases "\<lfloor>a\<rfloor> < \<lfloor>b\<rfloor>")
  case True
  then show ?thesis using rne_bounds(2) [of a] rne_bounds(1) [of b] by linarith
next
  case False
  then have eq: "\<lfloor>a\<rfloor> = \<lfloor>b\<rfloor>" using floor_mono [OF assms] by simp
  then have "a - of_int \<lfloor>a\<rfloor> \<le> b - of_int \<lfloor>b\<rfloor>" using assms by simp
  then show ?thesis unfolding rne_def Let_def eq by auto
qed

lemma binade_bounds:
  assumes "q \<noteq> 0"
  shows "pow2 (binade q) \<le> \<bar>q\<bar>" "\<bar>q\<bar> < pow2 (binade q + 1)"
proof -
  have both: "pow2 (binade q) \<le> \<bar>q\<bar> \<and> \<bar>q\<bar> < pow2 (binade q + 1)"
  proof (cases "1 \<le> \<bar>q\<bar>")
    case True
    define m where "m = \<lfloor>\<bar>q\<bar>\<rfloor>"
    have m: "0 < m" using True by (simp add: m_def)
    then have b1: "1 \<le> bitlen m" by (simp add: bitlen_alt_def)
    from bitlen_bounds [OF m]
    have lo: "2 ^ nat (bitlen m - 1) \<le> m" and hi: "m < 2 ^ nat (bitlen m)" by simp_all
    have bq: "binade q = bitlen m - 1" using True by (simp add: binade_def m_def)
    have "pow2 (binade q) = of_int (2 ^ nat (bitlen m - 1))"
      using b1 by (simp add: bq pow2_nat)
    also have "\<dots> \<le> of_int m" using lo by (simp only: of_int_le_iff)
    also have "\<dots> \<le> \<bar>q\<bar>" by (simp add: m_def)
    finally have 1: "pow2 (binade q) \<le> \<bar>q\<bar>" .
    have "\<bar>q\<bar> < of_int (m + 1)" unfolding m_def by linarith
    also have "\<dots> \<le> of_int (2 ^ nat (bitlen m))" using hi by (simp only: of_int_le_iff)
    also have "\<dots> = pow2 (binade q + 1)" using b1 by (simp add: bq pow2_nat)
    finally have 2: "\<bar>q\<bar> < pow2 (binade q + 1)" .
    show ?thesis using 1 2 ..
  next
    case False
    define r where "r = 1 / \<bar>q\<bar>"
    define c where "c = \<lceil>r\<rceil>"
    have q: "0 < \<bar>q\<bar>" "\<bar>q\<bar> < 1" using assms False by simp_all
    then have r1: "1 < r" by (simp add: r_def)
    then have c2: "2 \<le> c" unfolding c_def by linarith
    then have c1: "0 < c - 1" by simp
    then have b1: "1 \<le> bitlen (c - 1)" by (simp add: bitlen_alt_def)
    from bitlen_bounds [OF c1]
    have lo: "2 ^ nat (bitlen (c - 1) - 1) \<le> c - 1" and hi: "c - 1 < 2 ^ nat (bitlen (c - 1))"
      by simp_all
    define n where "n = nat (bitlen (c - 1))"
    have n1: "1 \<le> n" using b1 by (simp add: n_def)
    have bq: "binade q = - int n" using False b1 by (simp add: binade_def c_def r_def n_def)
    have "r \<le> of_int c" by (simp add: c_def)
    also have "of_int c \<le> (of_int (2 ^ n) :: rat)"
      using hi by (simp only: of_int_le_iff n_def)
    finally have rle: "r \<le> 2 ^ n" by simp
    have "(2::int) ^ (n - 1) \<le> c - 1"
      using lo n1 by (simp add: n_def nat_diff_distrib)
    then have "(of_int (2 ^ (n - 1)) :: rat) \<le> of_int (c - 1)"
      by (simp only: of_int_le_iff)
    also have "of_int (c - 1) < r" unfolding c_def by linarith
    finally have rgt: "2 ^ (n - 1) < r" by simp
    have p1: "pow2 (binade q) = 1 / 2 ^ n" by (simp add: bq pow2_def)
    have p2: "pow2 (binade q + 1) = 1 / 2 ^ (n - 1)"
      using n1 by (simp add: bq pow2_def nat_diff_distrib)
    have "1 / 2 ^ n \<le> \<bar>q\<bar>"
      using rle q(1) by (simp add: r_def field_simps)
    moreover have "\<bar>q\<bar> < 1 / 2 ^ (n - 1)"
      using rgt q(1) by (simp add: r_def field_simps)
    ultimately show ?thesis by (simp add: p1 p2)
  qed
  show "pow2 (binade q) \<le> \<bar>q\<bar>" "\<bar>q\<bar> < pow2 (binade q + 1)" using both by simp_all
qed

lemma ulp_exp_mono:
  assumes "0 < q" "q \<le> q'"
  shows "ulp_exp q \<le> ulp_exp q'"
proof -
  have "pow2 (binade q) \<le> \<bar>q\<bar>" using binade_bounds(1) [of q] assms(1) by simp
  also have "\<bar>q\<bar> \<le> \<bar>q'\<bar>" using assms by simp
  also have "\<bar>q'\<bar> < pow2 (binade q' + 1)" using binade_bounds(2) [of q'] assms by simp
  finally have "binade q < binade q' + 1" by (rule pow2_less_cancel)
  then show ?thesis by (simp add: ulp_exp_def)
qed

lemma fl_zero [simp]: "fl 0 = 0"
  by (simp add: fl_def rne_def)

lemma fl_nonneg:
  assumes "0 \<le> q"
  shows "0 \<le> fl q"
proof -
  have "0 \<le> q / pow2 (ulp_exp q)" using assms by (intro divide_nonneg_pos pow2_pos)
  then have "0 \<le> \<lfloor>q / pow2 (ulp_exp q)\<rfloor>" by simp
  then have "0 \<le> rne (q / pow2 (ulp_exp q))"
    using rne_bounds(1) [of "q / pow2 (ulp_exp q)"] by linarith
  then show ?thesis unfolding fl_def by (intro mult_nonneg_nonneg) simp_all
qed

lemma fl_mono:
  assumes "0 \<le> q" "q \<le> q'"
  shows "fl q \<le> fl q'"
proof (cases "q = 0")
  case True
  then show ?thesis using fl_nonneg [of q'] assms by (simp add: fl_def rne_def)
next
  case False
  then have q: "0 < q" "0 < q'" using assms by simp_all
  let ?e = "ulp_exp q" and ?e' = "ulp_exp q'"
  have ee: "?e \<le> ?e'" using ulp_exp_mono [OF q(1) assms(2)] .
  show ?thesis
  proof (cases "?e = ?e'")
    case True
    have "q / pow2 ?e \<le> q' / pow2 ?e"
      using assms(2) by (intro divide_right_mono less_imp_le [OF pow2_pos])
    then have "rne (q / pow2 ?e) \<le> rne (q' / pow2 ?e)" by (rule rne_mono)
    then have "of_int (rne (q / pow2 ?e)) * pow2 ?e \<le> (of_int (rne (q' / pow2 ?e)) :: rat) * pow2 ?e"
      by (simp add: mult_right_mono)
    then show ?thesis unfolding fl_def True [symmetric] .
  next
    case False
    then have lt: "?e + 1 \<le> ?e'" using ee by simp
    then have e': "?e' = binade q' - 52" by (simp add: ulp_exp_def)
    have "binade q - 52 \<le> ?e" by (simp add: ulp_exp_def)
    then have "binade q + 1 \<le> ?e + 53" by simp
    have "q < pow2 (binade q + 1)" using binade_bounds(2) [of q] q(1) by simp
    also have "\<dots> \<le> pow2 (?e + 53)" using \<open>binade q + 1 \<le> ?e + 53\<close> by (rule pow2_mono)
    finally have "q < pow2 ?e * 2 ^ 53" by (simp only: pow2_add pow2_numerals)
    then have "q / pow2 ?e \<le> of_int (2 ^ 53)" by (simp add: field_simps)
    then have "rne (q / pow2 ?e) \<le> rne (of_int (2 ^ 53))" by (rule rne_mono)
    then have "rne (q / pow2 ?e) \<le> 2 ^ 53" by (simp only: rne_of_int)
    then have "(of_int (rne (q / pow2 ?e)) :: rat) \<le> of_int (2 ^ 53)" by (simp only: of_int_le_iff)
    then have "fl q \<le> of_int (2 ^ 53) * pow2 ?e"
      unfolding fl_def by (rule mult_right_mono) simp
    also have "\<dots> = pow2 (?e + 53)" by (simp add: pow2_add pow2_numerals)
    also have "\<dots> \<le> pow2 (?e' + 52)" using lt by (intro pow2_mono) simp
    finally have up: "fl q \<le> pow2 (?e' + 52)" .
    have "pow2 (?e' + 52) = pow2 (binade q')" by (simp add: e')
    also have "\<dots> \<le> q'" using binade_bounds(1) [of q'] q(2) by simp
    finally have "pow2 ?e' * 2 ^ 52 \<le> q'" by (simp only: pow2_add pow2_numerals)
    then have "of_int (2 ^ 52) \<le> q' / pow2 ?e'" by (simp add: field_simps)
    then have "rne (of_int (2 ^ 52)) \<le> rne (q' / pow2 ?e')" by (rule rne_mono)
    then have "2 ^ 52 \<le> rne (q' / pow2 ?e')" by (simp only: rne_of_int)
    then have "(of_int (2 ^ 52) :: rat) \<le> of_int (rne (q' / pow2 ?e'))" by (simp only: of_int_le_iff)
    then have "of_int (2 ^ 52) * pow2 ?e' \<le> fl q'"
      unfolding fl_def by (rule mult_right_mono) simp
    moreover have "of_int (2 ^ 52) * pow2 ?e' = pow2 (?e' + 52)"
      by (simp add: pow2_add pow2_numerals)
    ultimately show ?thesis using up by simp
  qed
qed

lemma fl_le:
  assumes "0 \<le> q" "q \<le> d" "fl d = d"
  shows "fl q \<le> d"
  using fl_mono [OF assms(1,2)] assms(3) by simp

section \<open>What a cycle leaves alone\<close>

lemma addAlert_frame:
  "user (addAlert a w) = user w"
  "settings (addAlert a w) = settings w"
  "isRunning (addAlert a w) = isRunning w"
  "simulation_settings_table (addAlert a w) = simulation_settings_table w"
  "archive_items (addAlert a w) = archive_items w"
  "decay_events (addAlert a w) = decay_events w"
  "degradation_logs (addAlert a w) = degradation_logs w"
  by (simp_all add: addAlert_def split: option.split)

lemma degrade_item_frame:
  "user (cycle_world (degrade_item uid cap yr ev item st)) = user (cycle_world st)"
  "settings (cycle_world (degrade_item uid cap yr ev item st)) = settings (cycle_world st)"
  "isRunning (cycle_world (degrade_item uid cap yr ev item st)) = isRunning (cycle_world st)"
  "simulation_settings_table (cycle_world (degrade_item uid cap yr ev item st)) =
     simulation_settings_table (cycle_world st)"
  "decay_events (cycle_world (degrade_item uid cap yr ev item st)) = decay_events (cycle_world st)"
  by (simp_all add: degrade_item_def Let_def addAlert_frame split: prod.split option.split)

lemma degrade_loop_frame:
  "user (cycle_world (degrade_loop uid cap yr ev xs st)) = user (cycle_world st) \<and>
   settings (cycle_world (degrade_loop uid cap yr ev xs st)) = settings (cycle_world st) \<and>
   isRunning (cycle_world (degrade_loop uid cap yr ev xs st)) = isRunning (cycle_world st) \<and>
   simulation_settings_table (cycle_world (degrade_loop uid cap yr ev xs st)) =
     simulation_settings_table (cycle_world st) \<and>
   decay_events (cycle_world (degrade_loop uid cap yr ev xs st)) = decay_events (cycle_world st)"
  by (induction xs arbitrary: st) (simp_all add: degrade_item_frame)

lemma degradation_phase_frame:
  "user (cycle_world (degradation_phase uid cap yr ev items sb w)) = user w \<and>
   settings (cycle_world (degradation_phase uid cap yr ev items sb w)) = settings w \<and>
   isRunning (cycle_world (degradation_phase uid cap yr ev items sb w)) = isRunning w \<and>
   simulation_settings_table (cycle_world (degradation_phase uid cap yr ev items sb w)) =
     simulation_settings_table w \<and>
   decay_events (cycle_world (degradation_phase uid cap yr ev items sb w)) = decay_events w"
  by (simp add: degradation_phase_def Let_def degrade_loop_frame addAlert_frame)

lemma processDecayEvent_terminal:
  assumes "user w = Some uid" "settings w = Some s"
      and "total_years s < current_year s + decay_interval_years s"
  shows "processDecayEvent w =
           w\<lparr> isRunning := False,
              simulation_settings_table :=
                update_settings_row (settings_id s) (\<lambda>row. row\<lparr> is_running := False \<rparr>)
                  (simulation_settings_table w) \<rparr>"
  using assms by (simp add: processDecayEvent_def)

lemma processDecayEvent_settings:
  assumes "user w = Some uid" "settings w = Some s"
      and "current_year s + decay_interval_years s \<le> total_years s"
  shows "settings (processDecayEvent w) =
           Some (s\<lparr> current_year := current_year s + decay_interval_years s,
                    current_capacity_kb := decayed_capacity (current_capacity_kb s) (decay_percent s) \<rparr>)"
    and "user (processDecayEvent w) = Some uid"
    and "isRunning (processDecayEvent w) = isRunning w"
    and "length (decay_events (processDecayEvent w)) = Suc (length (decay_events w))"
    and "simulation_settings_table (processDecayEvent w) =
           update_settings_row (settings_id s)
             (\<lambda>row. row\<lparr> current_year := current_year s + decay_interval_years s,
                         current_capacity_kb :=
                           decayed_capacity (current_capacity_kb s) (decay_percent s) \<rparr>)
             (simulation_settings_table w)"
  using assms
  by (simp_all add: processDecayEvent_def Let_def degradation_phase_frame)

lemma processDecayEvent_idle:
  assumes "settings w = None \<or> user w = None \<or>
           (\<exists>s. settings w = Some s \<and> total_years s < current_year s + decay_interval_years s)"
  shows "archive_items (processDecayEvent w) = archive_items w \<and>
         degradation_logs (processDecayEvent w) = degradation_logs w \<and>
         decay_events (processDecayEvent w) = decay_events w \<and>
         alerts (processDecayEvent w) = alerts w \<and>
         alerts_table (processDecayEvent w) = alerts_table w \<and>
         settings (processDecayEvent w) = settings w"
proof (cases "settings w")
  case None
  then show ?thesis by (simp add: processDecayEvent_def)
next
  case (Some s)
  show ?thesis
  proof (cases "user w")
    case None
    then show ?thesis using Some by (simp add: processDecayEvent_def)
  next
    case (Some uid)
    with \<open>settings w = Some s\<close> assms
    have "total_years s < current_year s + decay_interval_years s" by simp
    from processDecayEvent_terminal [OF Some \<open>settings w = Some s\<close> this]
    show ?thesis by simp
  qed
qed

section \<open>The query and the sort\<close>

lemma set_order_by_semantic_score [simp]: "set (order_by_semantic_score rows) = set rows"
  by (auto simp: order_by_semantic_score_def)

lemma set_select_items:
  "set (select_items uid rows) = {item \<in> set rows. item_owner_id item = uid \<and> stage item \<noteq> DELETED}"
  by (auto simp: select_items_def)

lemma set_sortedItems [simp]: "set (sortedItems xs) = set xs"
  by (simp add: sortedItems_def)

lemma distinct_select_items:
  assumes "distinct (map item_id rows)"
  shows "distinct (map item_id (sortedItems (select_items uid rows)))"
proof -
  from assms have d: "distinct rows" and i: "inj_on item_id (set rows)"
    by (simp_all add: distinct_map)
  have "distinct (sortedItems (select_items uid rows))"
    using d by (auto simp: sortedItems_def select_items_def order_by_semantic_score_def)
  moreover have "inj_on item_id (set (sortedItems (select_items uid rows)))"
    using i by (auto simp: set_select_items intro: inj_on_subset)
  ultimately show ?thesis by (simp add: distinct_map)
qed

lemma select_items_single:
  assumes "item_owner_id item = uid" "stage item \<noteq> DELETED"
  shows "select_items uid [item] = [item]"
  using assms by (cases "semantic_score item") (simp_all add: select_items_def order_by_semantic_score_def)


section \<open>The switch\<close>

lemma next_stage_simps [simp]:
  "next_stage FULL = COMPRESSED" "next_stage COMPRESSED = SUMMARIZED"
  "next_stage SUMMARIZED = MINIMAL" "next_stage MINIMAL = DELETED" "next_stage DELETED = DELETED"
  by (simp_all add: next_stage_def next_degradation_def)

lemma next_degradation_eq:
  "fst (next_degradation (stage item) (current_size_kb item) p sc r) = next_stage (stage item)"
  "fst (snd (next_degradation (stage item) (current_size_kb item) p sc r)) = next_size item"
  by (cases "stage item"; simp add: next_size_def next_degradation_def)+

lemma next_stage_neq: "ps \<noteq> DELETED \<Longrightarrow> next_stage ps \<noteq> ps"
  by (cases ps) simp_all

lemma stage_rank_next_stage:
  "stage_rank ps \<le> stage_rank (next_stage ps)" "stage_rank (next_stage ps) \<le> Suc (stage_rank ps)"
  by (cases ps; simp)+

lemma stage_rank_next: "ps \<noteq> DELETED \<Longrightarrow> stage_rank (next_stage ps) = stage_rank ps + 1"
  by (cases ps) simp_all

lemma next_size_multiplier:
  "stage item \<noteq> DELETED \<Longrightarrow>
   next_size item =
     \<lfloor>js_mul (of_int (current_size_kb item)) (fl (spec_retention_multiplier (stage item)))\<rfloor>"
  by (cases "stage item") (simp_all add: next_size_def next_degradation_def js_mul_def)

lemma next_size_full_1000:
  "\<lfloor>js_mul 1000 (fl (7 / 10))\<rfloor> = 700"
  by code_simp

section \<open>The effect of the loop\<close>

lemma degrade_item_step:
  assumes "stage item \<noteq> DELETED"
  shows "\<exists>l. logged_as uid ev item l \<and>
           degradation_logs (cycle_world (degrade_item uid cap yr ev item st)) =
             degradation_logs (cycle_world st) @ [l] \<and>
           archive_items (cycle_world (degrade_item uid cap yr ev item st)) =
             apply_degradation (archive_items (cycle_world st)) item \<and>
           currentStorage (degrade_item uid cap yr ev item st) =
             currentStorage st - (current_size_kb item - next_size item) \<and>
           itemsAffected (degrade_item uid cap yr ev item st) = itemsAffected st + 1"
proof -
  let ?p = "jsnum_times (js_div (of_int (currentStorage st)) (of_int cap)) 100"
  let ?r = "or_default (val_reconstructability item) 50"
  obtain ns nsz rs where nd:
    "next_degradation (stage item) (current_size_kb item) ?p (semantic_score item) ?r = (ns, nsz, rs)"
    by (cases "next_degradation (stage item) (current_size_kb item) ?p (semantic_score item) ?r") auto
  have ns: "ns = next_stage (stage item)" and nsz: "nsz = next_size item"
    using next_degradation_eq [of item ?p "semantic_score item" ?r] nd by simp_all
  have neq: "ns \<noteq> stage item" using ns assms next_stage_neq by simp
  let ?l = "degradation_log_of uid ev item ns nsz rs ?p ?r"
  have "logged_as uid ev item ?l"
    by (simp add: logged_as_def degradation_log_of_def ns nsz)
  moreover have "degradation_logs (cycle_world (degrade_item uid cap yr ev item st)) =
             degradation_logs (cycle_world st) @ [?l]"
    using nd neq by (simp add: degrade_item_def Let_def addAlert_frame split: option.split)
  moreover have "archive_items (cycle_world (degrade_item uid cap yr ev item st)) =
             apply_degradation (archive_items (cycle_world st)) item"
    using nd neq
    by (simp add: degrade_item_def Let_def addAlert_frame apply_degradation_def ns nsz
          split: option.split)
  moreover have "currentStorage (degrade_item uid cap yr ev item st) =
             currentStorage st - (current_size_kb item - next_size item)"
    using nd neq by (simp add: degrade_item_def Let_def nsz)
  moreover have "itemsAffected (degrade_item uid cap yr ev item st) = itemsAffected st + 1"
    using nd neq by (simp add: degrade_item_def Let_def)
  ultimately show ?thesis by blast
qed

lemma degrade_loop_effect:
  assumes "\<forall>item \<in> set xs. stage item \<noteq> DELETED"
  shows "\<exists>k L. k \<le> length xs \<and> list_all2 (logged_as uid ev) (take k xs) L \<and>
           degradation_logs (cycle_world (degrade_loop uid cap yr ev xs st)) =
             degradation_logs (cycle_world st) @ L \<and>
           archive_items (cycle_world (degrade_loop uid cap yr ev xs st)) =
             foldl apply_degradation (archive_items (cycle_world st)) (take k xs) \<and>
           itemsAffected (degrade_loop uid cap yr ev xs st) = itemsAffected st + int k"
  using assms
proof (induction xs arbitrary: st)
  case Nil
  show ?case by simp
next
  case (Cons item rest)
  show ?case
  proof (cases "currentStorage st \<le> cap")
    case True
    have "0 \<le> length (item # rest) \<and> list_all2 (logged_as uid ev) (take 0 (item # rest)) [] \<and>
          degradation_logs (cycle_world (degrade_loop uid cap yr ev (item # rest) st)) =
             degradation_logs (cycle_world st) @ [] \<and>
          archive_items (cycle_world (degrade_loop uid cap yr ev (item # rest) st)) =
             foldl apply_degradation (archive_items (cycle_world st)) (take 0 (item # rest)) \<and>
          itemsAffected (degrade_loop uid cap yr ev (item # rest) st) = itemsAffected st + int 0"
      using True by simp
    then show ?thesis by blast
  next
    case False
    let ?st1 = "degrade_item uid cap yr ev item st"
    from Cons.prems have "stage item \<noteq> DELETED" and rest: "\<forall>item \<in> set rest. stage item \<noteq> DELETED"
      by simp_all
    from degrade_item_step [OF this(1), of uid ev cap yr st]
    obtain l where l: "logged_as uid ev item l"
      and l1: "degradation_logs (cycle_world ?st1) = degradation_logs (cycle_world st) @ [l]"
      and l2: "archive_items (cycle_world ?st1) = apply_degradation (archive_items (cycle_world st)) item"
      and l3: "itemsAffected ?st1 = itemsAffected st + 1"
      by blast
    from Cons.IH [OF rest, of ?st1]
    obtain k L where k: "k \<le> length rest" and L: "list_all2 (logged_as uid ev) (take k rest) L"
      and i1: "degradation_logs (cycle_world (degrade_loop uid cap yr ev rest ?st1)) =
                 degradation_logs (cycle_world ?st1) @ L"
      and i2: "archive_items (cycle_world (degrade_loop uid cap yr ev rest ?st1)) =
                 foldl apply_degradation (archive_items (cycle_world ?st1)) (take k rest)"
      and i3: "itemsAffected (degrade_loop uid cap yr ev rest ?st1) = itemsAffected ?st1 + int k"
      by blast
    have "Suc k \<le> length (item # rest) \<and>
          list_all2 (logged_as uid ev) (take (Suc k) (item # rest)) (l # L) \<and>
          degradation_logs (cycle_world (degrade_loop uid cap yr ev (item # rest) st)) =
             degradation_logs (cycle_world st) @ (l # L) \<and>
          archive_items (cycle_world (degrade_loop uid cap yr ev (item # rest) st)) =
             foldl apply_degradation (archive_items (cycle_world st)) (take (Suc k) (item # rest)) \<and>
          itemsAffected (degrade_loop uid cap yr ev (item # rest) st) = itemsAffected st + int (Suc k)"
      using False k L l l1 l2 l3 i1 i2 i3 by simp
    then show ?thesis by blast
  qed
qed

lemma degradation_phase_effect:
  assumes "\<forall>item \<in> set items. stage item \<noteq> DELETED"
  shows "\<exists>k L. k \<le> length (sortedItems items) \<and>
           list_all2 (logged_as uid (Some ev)) (take k (sortedItems items)) L \<and>
           degradation_logs (cycle_world (degradation_phase uid cap yr ev items sb w)) =
             degradation_logs w @ L \<and>
           archive_items (cycle_world (degradation_phase uid cap yr ev items sb w)) =
             foldl apply_degradation (archive_items w) (take k (sortedItems items)) \<and>
           itemsAffected (degradation_phase uid cap yr ev items sb w) = int k"
proof (cases "cap < sb")
  case True
  let ?p = "jsnum_times (js_div (of_int sb) (of_int cap)) 100"
  let ?w2 = "if jsnum_gt ?p 80 then addAlert (storage_pressure_alert yr ?p) w else w"
  let ?st = "\<lparr> cycle_world = ?w2, currentStorage = sb, itemsAffected = 0 \<rparr>"
  have ph: "degradation_phase uid cap yr ev items sb w =
            degrade_loop uid cap yr (Some ev) (sortedItems items) ?st"
    using True by (simp add: degradation_phase_def Let_def)
  have nd: "\<forall>item \<in> set (sortedItems items). stage item \<noteq> DELETED"
    using assms by simp
  have w2: "degradation_logs (cycle_world ?st) = degradation_logs w"
           "archive_items (cycle_world ?st) = archive_items w" "itemsAffected ?st = 0"
    by (simp_all add: addAlert_frame)
  from degrade_loop_effect [OF nd, of uid "Some ev" cap yr ?st]
  show ?thesis unfolding ph w2 by simp
next
  case False
  have "degradation_logs (cycle_world (degradation_phase uid cap yr ev items sb w)) =
          degradation_logs w @ [] \<and>
        archive_items (cycle_world (degradation_phase uid cap yr ev items sb w)) =
          foldl apply_degradation (archive_items w) (take 0 (sortedItems items)) \<and>
        itemsAffected (degradation_phase uid cap yr ev items sb w) = int 0"
    using False by (simp add: degradation_phase_def Let_def)
  then show ?thesis by (intro exI [of _ 0] exI [of _ "[]"]) simp
qed

lemma degradation_phase_single:
  assumes "stage item \<noteq> DELETED" "cap < current_size_kb item"
  shows "\<exists>l. logged_as uid (Some ev) item l \<and>
           degradation_logs (cycle_world (degradation_phase uid cap yr ev [item]
               (current_size_kb item) w)) = degradation_logs w @ [l] \<and>
           archive_items (cycle_world (degradation_phase uid cap yr ev [item]
               (current_size_kb item) w)) = apply_degradation (archive_items w) item \<and>
           currentStorage (degradation_phase uid cap yr ev [item] (current_size_kb item) w) =
             next_size item \<and>
           itemsAffected (degradation_phase uid cap yr ev [item] (current_size_kb item) w) = 1"
proof -
  let ?p = "jsnum_times (js_div (of_int (current_size_kb item)) (of_int cap)) 100"
  let ?w2 = "if jsnum_gt ?p 80 then addAlert (storage_pressure_alert yr ?p) w else w"
  let ?st = "\<lparr> cycle_world = ?w2, currentStorage = current_size_kb item, itemsAffected = 0 \<rparr>"
  have ph: "degradation_phase uid cap yr ev [item] (current_size_kb item) w =
            degrade_item uid cap yr (Some ev) item ?st"
    using assms(2) by (simp add: degradation_phase_def Let_def sortedItems_def)
  have w2: "degradation_logs (cycle_world ?st) = degradation_logs w"
           "archive_items (cycle_world ?st) = archive_items w" "itemsAffected ?st = 0"
           "currentStorage ?st = current_size_kb item"
    by (simp_all add: addAlert_frame)
  from degrade_item_step [OF assms(1), of uid "Some ev" cap yr ?st]
  show ?thesis unfolding ph w2 by simp
qed

lemma foldr_max_ge: "e \<in> set events \<Longrightarrow> event_id e \<le> foldr max (map event_id events) 0"
  by (induction events) auto

lemma new_event_id_fresh: "e \<in> set events \<Longrightarrow> event_id e \<noteq> new_event_id events"
  using foldr_max_ge [of e events] by (simp add: new_event_id_def)

lemma update_new_event:
  assumes "event_id e = new_event_id events"
  shows "map (\<lambda>x. if event_id x = new_event_id events then f x else x) (events @ [e]) =
         events @ [f e]"
proof -
  have "map (\<lambda>x. if event_id x = new_event_id events then f x else x) events = events"
    by (rule map_idI) (simp add: new_event_id_fresh)
  then show ?thesis using assms by simp
qed

lemma processDecayEvent_unfold:
  assumes "user w = Some uid" "settings w = Some s"
      and "current_year s + decay_interval_years s \<le> total_years s"
      and "items = select_items uid (archive_items w)"
      and "cap = decayed_capacity (current_capacity_kb s) (decay_percent s)"
      and "yr = current_year s + decay_interval_years s"
      and "sb = sum_list (map current_size_kb items)"
      and "e0 = \<lparr> event_id = new_event_id (decay_events w), event_owner_id = uid,
                  event_no = jsnum_floor (js_div (of_int yr) (of_int (decay_interval_years s))),
                  simulated_year = yr, capacity_before_kb = current_capacity_kb s,
                  capacity_after_kb = cap, storage_before_kb = sb, storage_after_kb = sb,
                  items_affected = 0 \<rparr>"
      and "st1 = degradation_phase uid cap yr (new_event_id (decay_events w)) items sb
                   (w\<lparr> decay_events := decay_events w @ [e0] \<rparr>)"
  shows "decay_events (processDecayEvent w) =
           decay_events w @ [e0\<lparr> storage_after_kb := currentStorage st1,
                                  items_affected := itemsAffected st1 \<rparr>]"
    and "degradation_logs (processDecayEvent w) = degradation_logs (cycle_world st1)"
    and "archive_items (processDecayEvent w) = archive_items (cycle_world st1)"
    and "alerts (processDecayEvent w) = alerts (cycle_world st1)"
    and "alerts_table (processDecayEvent w) = alerts_table (cycle_world st1)"
proof -
  have ev: "decay_events (cycle_world st1) = decay_events w @ [e0]"
    unfolding assms(9) by (simp add: degradation_phase_frame)
  have id: "event_id e0 = new_event_id (decay_events w)" unfolding assms(8) by simp
  have "decay_events (processDecayEvent w) =
          map (\<lambda>e. if event_id e = new_event_id (decay_events w)
                    then e\<lparr> storage_after_kb := currentStorage st1,
                            items_affected := itemsAffected st1 \<rparr>
                    else e) (decay_events (cycle_world st1))"
    using assms(1-3) unfolding assms(4-9) by (simp add: processDecayEvent_def Let_def)
  then show "decay_events (processDecayEvent w) =
           decay_events w @ [e0\<lparr> storage_after_kb := currentStorage st1,
                                  items_affected := itemsAffected st1 \<rparr>]"
    unfolding ev by (simp only: update_new_event [OF id])
  show "degradation_logs (processDecayEvent w) = degradation_logs (cycle_world st1)"
    and "archive_items (processDecayEvent w) = archive_items (cycle_world st1)"
    and "alerts (processDecayEvent w) = alerts (cycle_world st1)"
    and "alerts_table (processDecayEvent w) = alerts_table (cycle_world st1)"
    using assms(1-3) unfolding assms(4-9) by (simp_all add: processDecayEvent_def Let_def)
qed

lemma processDecayEvent_effect:
  assumes "user w = Some uid" "settings w = Some s"
      and "current_year s + decay_interval_years s \<le> total_years s"
  shows "\<exists>k L. k \<le> length (sortedItems (select_items uid (archive_items w))) \<and>
           list_all2 (logged_as uid (Some (new_event_id (decay_events w))))
             (take k (sortedItems (select_items uid (archive_items w)))) L \<and>
           degradation_logs (processDecayEvent w) = degradation_logs w @ L \<and>
           archive_items (processDecayEvent w) =
             foldl apply_degradation (archive_items w)
               (take k (sortedItems (select_items uid (archive_items w))))"
proof -
  let ?items = "select_items uid (archive_items w)"
  have nd: "\<forall>item \<in> set ?items. stage item \<noteq> DELETED"
    by (simp add: set_select_items)
  define w1 where "w1 = w\<lparr> decay_events := decay_events w @
       [\<lparr> event_id = new_event_id (decay_events w), event_owner_id = uid,
          event_no = jsnum_floor (js_div (of_int (current_year s + decay_interval_years s))
                       (of_int (decay_interval_years s))),
          simulated_year = current_year s + decay_interval_years s,
          capacity_before_kb = current_capacity_kb s,
          capacity_after_kb = decayed_capacity (current_capacity_kb s) (decay_percent s),
          storage_before_kb = sum_list (map current_size_kb ?items),
          storage_after_kb = sum_list (map current_size_kb ?items),
          items_affected = 0 \<rparr>] \<rparr>"
  define st1 where "st1 = degradation_phase uid
      (decayed_capacity (current_capacity_kb s) (decay_percent s))
      (current_year s + decay_interval_years s) (new_event_id (decay_events w)) ?items
      (sum_list (map current_size_kb ?items)) w1"
  have fin: "degradation_logs (processDecayEvent w) = degradation_logs (cycle_world st1)"
            "archive_items (processDecayEvent w) = archive_items (cycle_world st1)"
    using assms by (simp_all add: processDecayEvent_def Let_def st1_def w1_def)
  have w1: "degradation_logs w1 = degradation_logs w" "archive_items w1 = archive_items w"
    by (simp_all add: w1_def)
  from degradation_phase_effect [OF nd, of uid "new_event_id (decay_events w)"
      "decayed_capacity (current_capacity_kb s) (decay_percent s)"
      "current_year s + decay_interval_years s" "sum_list (map current_size_kb ?items)" w1]
  show ?thesis unfolding fin st1_def [symmetric] w1 by blast
qed

lemma apply_degradation_eq:
  assumes "distinct (map item_id rows)" "y \<in> set rows"
  shows "apply_degradation rows y = map (\<lambda>r. if r = y then degraded r else r) rows"
proof -
  have "inj_on item_id (set rows)" using assms(1) by (simp add: distinct_map)
  then have "\<forall>r \<in> set rows. item_id r = item_id y \<longleftrightarrow> r = y"
    using assms(2) by (auto dest: inj_onD)
  then show ?thesis
    by (simp add: apply_degradation_def update_item_def degraded_def)
qed

lemma item_id_degraded [simp]: "item_id (degraded r) = item_id r"
  by (simp add: degraded_def)

lemma foldl_apply_degradation:
  assumes "distinct (map item_id rows)" "set ys \<subseteq> set rows" "distinct (map item_id ys)"
  shows "foldl apply_degradation rows ys = map (\<lambda>r. if r \<in> set ys then degraded r else r) rows"
  using assms
proof (induction ys arbitrary: rows)
  case Nil
  then show ?case by simp
next
  case (Cons y ys)
  let ?U = "\<lambda>r. if r = y then degraded r else r"
  let ?rows1 = "map ?U rows"
  have y: "y \<in> set rows" using Cons.prems(2) by simp
  have step: "apply_degradation rows y = ?rows1"
    using apply_degradation_eq [OF Cons.prems(1) y] .
  have "item_id \<circ> ?U = item_id" by (rule ext) simp
  then have ids: "map item_id ?rows1 = map item_id rows" by simp
  have d1: "distinct (map item_id ?rows1)" unfolding ids using Cons.prems(1) .
  have notin: "item_id y \<notin> item_id ` set ys" using Cons.prems(3) by simp
  have sub: "set ys \<subseteq> set ?rows1"
  proof
    fix z assume z: "z \<in> set ys"
    then have "z \<in> set rows" "z \<noteq> y" using Cons.prems(2) notin by auto
    then show "z \<in> set ?rows1" by (auto simp: image_iff intro!: bexI [of _ z])
  qed
  have d2: "distinct (map item_id ys)" using Cons.prems(3) by simp
  have "foldl apply_degradation rows (y # ys) = foldl apply_degradation ?rows1 ys"
    using step by simp
  also have "\<dots> = map (\<lambda>r. if r \<in> set ys then degraded r else r) ?rows1"
    using Cons.IH [OF d1 sub d2] .
  also have "\<dots> = map (\<lambda>r. if r \<in> set (y # ys) then degraded r else r) rows"
  proof -
    have "degraded y \<notin> set ys" using notin by (metis image_eqI item_id_degraded)
    then show ?thesis using notin by auto
  qed
  finally show ?case .
qed

lemma processDecayEvent_items:
  assumes "distinct (map item_id (archive_items w))"
  shows "\<exists>ys. set ys \<subseteq> set (archive_items w) \<and> (\<forall>y \<in> set ys. stage y \<noteq> DELETED) \<and>
           archive_items (processDecayEvent w) =
             map (\<lambda>r. if r \<in> set ys then degraded r else r) (archive_items w)"
proof (cases "settings w = None \<or> user w = None \<or>
           (\<exists>s. settings w = Some s \<and> total_years s < current_year s + decay_interval_years s)")
  case True
  have "archive_items (processDecayEvent w) =
          map (\<lambda>r. if r \<in> set [] then degraded r else r) (archive_items w)"
    using processDecayEvent_idle [OF True] by simp
  then show ?thesis by (intro exI [of _ "[]"]) simp
next
  case False
  then obtain s uid where s: "settings w = Some s" and u: "user w = Some uid"
    and r: "current_year s + decay_interval_years s \<le> total_years s"
    by (cases "settings w"; cases "user w") (simp_all add: not_less)
  let ?xs = "sortedItems (select_items uid (archive_items w))"
  from processDecayEvent_effect [OF u s r]
  obtain k where k: "archive_items (processDecayEvent w) =
      foldl apply_degradation (archive_items w) (take k ?xs)"
    by blast
  have sub: "set (take k ?xs) \<subseteq> set (archive_items w)"
    using set_take_subset [of k ?xs] by (auto simp: set_select_items)
  have nd: "\<forall>y \<in> set (take k ?xs). stage y \<noteq> DELETED"
    using set_take_subset [of k ?xs] by (auto simp: set_select_items)
  have "distinct (map item_id (take k ?xs))"
    using distinct_select_items [OF assms, of uid] by (simp add: take_map [symmetric] distinct_take)
  from foldl_apply_degradation [OF assms sub this] k
  have "archive_items (processDecayEvent w) =
          map (\<lambda>r. if r \<in> set (take k ?xs) then degraded r else r) (archive_items w)"
    by simp
  with sub nd show ?thesis by (intro exI [of _ "take k ?xs"] conjI)
qed

lemma logged_as_fields:
  assumes "logged_as uid ev item l"
  shows "log_item_id l = item_id item" "prev_stage l = stage item"
    "new_stage l = next_stage (stage item)" "size_before_kb l = current_size_kb item"
    "size_after_kb l = next_size item" "log_semantic_score l = semantic_score item"
    "log_owner_id l = uid" "decay_event_id l = ev" "item_title l = title item"
  by (subst assms [unfolded logged_as_def], simp add: degradation_log_of_def)+

lemma list_all2_witness:
  "list_all2 P xs ys \<Longrightarrow> y \<in> set ys \<Longrightarrow> \<exists>x \<in> set xs. P x y"
  by (induction rule: list_all2_induct) auto

lemma processDecayEvent_effect_distinct:
  assumes "user w = Some uid" "settings w = Some s"
      and "current_year s + decay_interval_years s \<le> total_years s"
      and "distinct (map item_id (archive_items w))"
  shows "\<exists>k L. list_all2 (logged_as uid (Some (new_event_id (decay_events w))))
             (take k (sortedItems (select_items uid (archive_items w)))) L \<and>
           new_logs w (processDecayEvent w) = L \<and>
           archive_items (processDecayEvent w) =
             map (\<lambda>r. if r \<in> set (take k (sortedItems (select_items uid (archive_items w))))
                       then degraded r else r) (archive_items w)"
proof -
  let ?xs = "sortedItems (select_items uid (archive_items w))"
  from processDecayEvent_effect [OF assms(1-3)]
  obtain k L where L: "list_all2 (logged_as uid (Some (new_event_id (decay_events w)))) (take k ?xs) L"
    and logs: "degradation_logs (processDecayEvent w) = degradation_logs w @ L"
    and k: "archive_items (processDecayEvent w) =
      foldl apply_degradation (archive_items w) (take k ?xs)"
    by blast
  have sub: "set (take k ?xs) \<subseteq> set (archive_items w)"
    using set_take_subset [of k ?xs] by (auto simp: set_select_items)
  have "distinct (map item_id (take k ?xs))"
    using distinct_select_items [OF assms(4), of uid]
    by (simp add: take_map [symmetric] distinct_take)
  from foldl_apply_degradation [OF assms(4) sub this] k
  have "archive_items (processDecayEvent w) =
          map (\<lambda>r. if r \<in> set (take k ?xs) then degraded r else r) (archive_items w)"
    by simp
  moreover have "new_logs w (processDecayEvent w) = L"
    by (simp add: new_logs_def logs)
  ultimately show ?thesis using L by (intro exI [of _ k] exI [of _ L] conjI)
qed


section \<open>The order of the log\<close>







section \<open>The alerts of the loop\<close>

lemma addAlert_alerts:
  "user w = Some uid \<Longrightarrow> alerts (addAlert a w) = a\<lparr> dismissed := False \<rparr> # take 99 (alerts w)"
  "user w = Some uid \<Longrightarrow> alerts_table (addAlert a w) = alerts_table w @ [alert_row_of uid a]"
  by (simp_all add: addAlert_def)

lemma transition_alert_iff:
  "transition_alert yr item (next_stage (stage item)) rs p \<noteq> None \<longleftrightarrow> raises_alert item"
  by (simp add: transition_alert_def raises_alert_def Let_def)

lemma transition_alert_undismissed:
  "transition_alert yr item ns rs p = Some a \<Longrightarrow> a\<lparr> dismissed := False \<rparr> = a"
  by (auto simp: transition_alert_def Let_def split: if_splits)

lemma transition_alert_is_alert_of_item:
  "transition_alert yr item (next_stage (stage item)) rs p = Some a \<Longrightarrow> alert_of_item yr item a"
  by (auto simp: transition_alert_def alert_of_item_def Let_def split: if_splits)

lemma degrade_item_alerts:
  assumes "stage item \<noteq> DELETED" "user (cycle_world st) = Some u"
  shows "\<exists>A. list_all2 (alert_of_item yr) (filter raises_alert [item]) A \<and>
           alerts (cycle_world (degrade_item uid cap yr ev item st)) =
             foldl (\<lambda>as a. a # take 99 as) (alerts (cycle_world st)) A \<and>
           alerts_table (cycle_world (degrade_item uid cap yr ev item st)) =
             alerts_table (cycle_world st) @ map (alert_row_of u) A"
proof -
  let ?p = "jsnum_times (js_div (of_int (currentStorage st)) (of_int cap)) 100"
  let ?r = "or_default (val_reconstructability item) 50"
  obtain ns nsz rs where nd:
    "next_degradation (stage item) (current_size_kb item) ?p (semantic_score item) ?r = (ns, nsz, rs)"
    by (cases "next_degradation (stage item) (current_size_kb item) ?p (semantic_score item) ?r") auto
  have ns: "ns = next_stage (stage item)"
    using next_degradation_eq(1) [of item ?p "semantic_score item" ?r] nd by simp
  have neq: "ns \<noteq> stage item" using ns assms(1) next_stage_neq by simp
  show ?thesis
  proof (cases "transition_alert yr item ns rs ?p")
    case None
    then have "\<not> raises_alert item" using transition_alert_iff [of yr item rs ?p] ns by simp
    moreover have "alerts (cycle_world (degrade_item uid cap yr ev item st)) = alerts (cycle_world st)"
      "alerts_table (cycle_world (degrade_item uid cap yr ev item st)) = alerts_table (cycle_world st)"
      using nd neq None by (simp_all add: degrade_item_def Let_def)
    ultimately show ?thesis by (intro exI [of _ "[]"]) simp
  next
    case (Some a)
    then have ra: "raises_alert item" using transition_alert_iff [of yr item rs ?p] ns by simp
    have ai: "alert_of_item yr item a"
      using Some ns transition_alert_is_alert_of_item by simp
    have "alerts (cycle_world (degrade_item uid cap yr ev item st)) = a # take 99 (alerts (cycle_world st))"
      "alerts_table (cycle_world (degrade_item uid cap yr ev item st)) =
         alerts_table (cycle_world st) @ [alert_row_of u a]"
      using nd neq Some assms(2) transition_alert_undismissed [OF Some]
      by (simp_all add: degrade_item_def Let_def addAlert_alerts)
    with ra ai show ?thesis by (intro exI [of _ "[a]"]) simp
  qed
qed

lemma degrade_loop_alerts:
  assumes "\<forall>item \<in> set xs. stage item \<noteq> DELETED" "user (cycle_world st) = Some u"
  shows "\<exists>k L A. k \<le> length xs \<and> (cap < currentStorage st \<and> xs \<noteq> [] \<longrightarrow> 0 < k) \<and>
           list_all2 (logged_as uid ev) (take k xs) L \<and>
           degradation_logs (cycle_world (degrade_loop uid cap yr ev xs st)) =
             degradation_logs (cycle_world st) @ L \<and>
           list_all2 (alert_of_item yr) (filter raises_alert (take k xs)) A \<and>
           alerts (cycle_world (degrade_loop uid cap yr ev xs st)) =
             foldl (\<lambda>as a. a # take 99 as) (alerts (cycle_world st)) A \<and>
           alerts_table (cycle_world (degrade_loop uid cap yr ev xs st)) =
             alerts_table (cycle_world st) @ map (alert_row_of u) A"
  using assms
proof (induction xs arbitrary: st)
  case Nil
  show ?case by simp
next
  case (Cons item rest)
  show ?case
  proof (cases "currentStorage st \<le> cap")
    case True
    then show ?thesis by (intro exI [of _ 0] exI [of _ "[]"]) simp
  next
    case False
    let ?st1 = "degrade_item uid cap yr ev item st"
    from Cons.prems have nd: "stage item \<noteq> DELETED"
      and rest: "\<forall>item \<in> set rest. stage item \<noteq> DELETED" by simp_all
    have u1: "user (cycle_world ?st1) = Some u"
      using Cons.prems(2) by (simp add: degrade_item_frame)
    from degrade_item_step [OF nd, of uid ev cap yr st]
    obtain l where l: "logged_as uid ev item l"
      and l1: "degradation_logs (cycle_world ?st1) = degradation_logs (cycle_world st) @ [l]"
      by blast
    from degrade_item_alerts [OF nd Cons.prems(2), of yr uid cap ev]
    obtain A0 where a0: "list_all2 (alert_of_item yr) (filter raises_alert [item]) A0"
      and a1: "alerts (cycle_world ?st1) = foldl (\<lambda>as a. a # take 99 as) (alerts (cycle_world st)) A0"
      and a2: "alerts_table (cycle_world ?st1) = alerts_table (cycle_world st) @ map (alert_row_of u) A0"
      by blast
    from Cons.IH [OF rest u1]
    obtain k L A where k: "k \<le> length rest"
      and L: "list_all2 (logged_as uid ev) (take k rest) L"
      and i1: "degradation_logs (cycle_world (degrade_loop uid cap yr ev rest ?st1)) =
                 degradation_logs (cycle_world ?st1) @ L"
      and A: "list_all2 (alert_of_item yr) (filter raises_alert (take k rest)) A"
      and i2: "alerts (cycle_world (degrade_loop uid cap yr ev rest ?st1)) =
                 foldl (\<lambda>as a. a # take 99 as) (alerts (cycle_world ?st1)) A"
      and i3: "alerts_table (cycle_world (degrade_loop uid cap yr ev rest ?st1)) =
                 alerts_table (cycle_world ?st1) @ map (alert_row_of u) A"
      by blast
    have f: "filter raises_alert (take (Suc k) (item # rest)) =
             filter raises_alert [item] @ filter raises_alert (take k rest)"
      by simp
    have "list_all2 (alert_of_item yr) (filter raises_alert (take (Suc k) (item # rest))) (A0 @ A)"
      unfolding f using a0 A by (rule list_all2_appendI)
    moreover have "list_all2 (logged_as uid ev) (take (Suc k) (item # rest)) (l # L)"
      using l L by simp
    moreover have "degradation_logs (cycle_world (degrade_loop uid cap yr ev (item # rest) st)) =
             degradation_logs (cycle_world st) @ (l # L)"
      using False i1 l1 by simp
    moreover have "alerts (cycle_world (degrade_loop uid cap yr ev (item # rest) st)) =
             foldl (\<lambda>as a. a # take 99 as) (alerts (cycle_world st)) (A0 @ A)"
      using False i2 a1 by simp
    moreover have "alerts_table (cycle_world (degrade_loop uid cap yr ev (item # rest) st)) =
             alerts_table (cycle_world st) @ map (alert_row_of u) (A0 @ A)"
      using False i3 a2 by simp
    moreover have "Suc k \<le> length (item # rest)" using k by simp
    moreover have "cap < currentStorage st \<and> item # rest \<noteq> [] \<longrightarrow> 0 < Suc k" by simp
    ultimately show ?thesis
      by (intro exI [of _ "Suc k"] exI [of _ "l # L"] exI [of _ "A0 @ A"] conjI)
  qed
qed

lemma degradation_phase_alerts:
  assumes "\<forall>item \<in> set items. stage item \<noteq> DELETED" "user w = Some u"
  shows "\<exists>k L A. k \<le> length (sortedItems items) \<and>
           (cap < sb \<and> items \<noteq> [] \<longrightarrow> 0 < k) \<and>
           list_all2 (logged_as uid (Some ev)) (take k (sortedItems items)) L \<and>
           degradation_logs (cycle_world (degradation_phase uid cap yr ev items sb w)) =
             degradation_logs w @ L \<and>
           list_all2 (alert_of_item yr) (filter raises_alert (take k (sortedItems items))) A \<and>
           alerts (cycle_world (degradation_phase uid cap yr ev items sb w)) =
             foldl (\<lambda>as a. a # take 99 as) (alerts w) (storage_alerts yr sb cap @ A) \<and>
           alerts_table (cycle_world (degradation_phase uid cap yr ev items sb w)) =
             alerts_table w @ map (alert_row_of u) (storage_alerts yr sb cap @ A)"
proof (cases "cap < sb")
  case True
  let ?p = "jsnum_times (js_div (of_int sb) (of_int cap)) 100"
  let ?w2 = "if jsnum_gt ?p 80 then addAlert (storage_pressure_alert yr ?p) w else w"
  let ?st = "\<lparr> cycle_world = ?w2, currentStorage = sb, itemsAffected = 0 \<rparr>"
  have ph: "degradation_phase uid cap yr ev items sb w =
            degrade_loop uid cap yr (Some ev) (sortedItems items) ?st"
    using True by (simp add: degradation_phase_def Let_def)
  have nd: "\<forall>item \<in> set (sortedItems items). stage item \<noteq> DELETED"
    using assms(1) by simp
  have und: "(storage_pressure_alert yr ?p)\<lparr> dismissed := False \<rparr> = storage_pressure_alert yr ?p"
    by (simp add: storage_pressure_alert_def)
  have w2: "degradation_logs (cycle_world ?st) = degradation_logs w"
           "user (cycle_world ?st) = Some u" "currentStorage ?st = sb"
           "alerts (cycle_world ?st) = foldl (\<lambda>as a. a # take 99 as) (alerts w) (storage_alerts yr sb cap)"
           "alerts_table (cycle_world ?st) = alerts_table w @ map (alert_row_of u) (storage_alerts yr sb cap)"
    using assms(2) True
    by (simp_all add: addAlert_frame addAlert_alerts storage_alerts_def Let_def und)
  have ne: "sortedItems items \<noteq> [] \<longleftrightarrow> items \<noteq> []"
    by (metis set_sortedItems set_empty)
  from degrade_loop_alerts [OF nd w2(2), where uid = uid and ev = "Some ev" and cap = cap and yr = yr]
  show ?thesis unfolding ph w2 ne by (simp add: True)
next
  case False
  have "storage_alerts yr sb cap = []" using False by (simp add: storage_alerts_def)
  moreover have "degradation_phase uid cap yr ev items sb w =
      \<lparr> cycle_world = w, currentStorage = sb, itemsAffected = 0 \<rparr>"
    using False by (simp add: degradation_phase_def Let_def)
  ultimately show ?thesis using False
    by (intro exI [of _ 0] exI [of _ "[]"]) simp
qed

lemma processDecayEvent_alerts:
  assumes "user w = Some uid" "settings w = Some s"
      and "current_year s + decay_interval_years s \<le> total_years s"
  shows "\<exists>k L A. k \<le> length (sortedItems (select_items uid (archive_items w))) \<and>
           (decayed_capacity (current_capacity_kb s) (decay_percent s)
              < sum_list (map current_size_kb (select_items uid (archive_items w))) \<and>
            select_items uid (archive_items w) \<noteq> [] \<longrightarrow> 0 < k) \<and>
           list_all2 (logged_as uid (Some (new_event_id (decay_events w))))
             (take k (sortedItems (select_items uid (archive_items w)))) L \<and>
           degradation_logs (processDecayEvent w) = degradation_logs w @ L \<and>
           list_all2 (alert_of_item (current_year s + decay_interval_years s))
             (filter raises_alert (take k (sortedItems (select_items uid (archive_items w))))) A \<and>
           alerts (processDecayEvent w) =
             foldl (\<lambda>as a. a # take 99 as) (alerts w)
               (storage_alerts (current_year s + decay_interval_years s)
                  (sum_list (map current_size_kb (select_items uid (archive_items w))))
                  (decayed_capacity (current_capacity_kb s) (decay_percent s)) @ A) \<and>
           alerts_table (processDecayEvent w) =
             alerts_table w @ map (alert_row_of uid)
               (storage_alerts (current_year s + decay_interval_years s)
                  (sum_list (map current_size_kb (select_items uid (archive_items w))))
                  (decayed_capacity (current_capacity_kb s) (decay_percent s)) @ A)"
proof -
  define items where "items = select_items uid (archive_items w)"
  define cap where "cap = decayed_capacity (current_capacity_kb s) (decay_percent s)"
  define yr where "yr = current_year s + decay_interval_years s"
  define sb where "sb = sum_list (map current_size_kb items)"
  define e0 where "e0 = \<lparr> event_id = new_event_id (decay_events w), event_owner_id = uid,
      event_no = jsnum_floor (js_div (of_int yr) (of_int (decay_interval_years s))),
      simulated_year = yr, capacity_before_kb = current_capacity_kb s,
      capacity_after_kb = cap, storage_before_kb = sb, storage_after_kb = sb,
      items_affected = 0 \<rparr>"
  define w1 where "w1 = w\<lparr> decay_events := decay_events w @ [e0] \<rparr>"
  define st1 where "st1 = degradation_phase uid cap yr (new_event_id (decay_events w)) items sb w1"
  note un = processDecayEvent_unfold [OF assms items_def cap_def yr_def sb_def e0_def
      st1_def [unfolded w1_def]]
  have nd: "\<forall>item \<in> set items. stage item \<noteq> DELETED"
    by (simp add: items_def set_select_items)
  have w1: "user w1 = Some uid" "degradation_logs w1 = degradation_logs w"
    "alerts w1 = alerts w" "alerts_table w1 = alerts_table w"
    using assms(1) by (simp_all add: w1_def)
  from degradation_phase_alerts [OF nd w1(1), where cap = cap and sb = sb and uid = uid
      and ev = "new_event_id (decay_events w)" and yr = yr]
  show ?thesis
    unfolding un(2,4,5) st1_def [symmetric] w1 items_def [symmetric] cap_def [symmetric]
      yr_def [symmetric] sb_def [symmetric] .
qed

lemma alert_of_item_fields:
  assumes "alert_of_item yr item a"
  shows "raises_alert item" "itemId a = Some (item_id item)" "itemTitle a = Some (title item)"
    "currentStage a = Some (stage item)" "targetStage a = Some (next_stage (stage item))"
    "alert_semanticScore a = or_default (semantic_score item) 0"
    "severity a = alert_severity_of (semantic_score item) (next_stage (stage item))"
    "alertType a = alert_type_of (semantic_score item) (next_stage (stage item))"
    "simulatedYear a = yr"
proof -
  let ?p = "case storagePressure a of Some p \<Rightarrow> p | None \<Rightarrow> NaN"
  have t: "transition_alert yr item (next_stage (stage item)) (reason a) ?p = Some a"
    using assms by (simp add: alert_of_item_def)
  then show ra: "raises_alert item"
    using transition_alert_iff [of yr item "reason a" ?p] by simp
  have "Some a = Some \<lparr> itemId = Some (item_id item), itemTitle = Some (title item),
      currentStage = Some (stage item), targetStage = Some (next_stage (stage item)),
      alert_semanticScore = or_default (semantic_score item) 0,
      storagePressure = Some ?p, reason = reason a,
      severity = alert_severity_of (semantic_score item) (next_stage (stage item)),
      alertType = alert_type_of (semantic_score item) (next_stage (stage item)),
      simulatedYear = yr, dismissed = False \<rparr>"
    unfolding t [symmetric] using ra by (simp add: transition_alert_def raises_alert_def Let_def)
  then have a: "a = \<lparr> itemId = Some (item_id item), itemTitle = Some (title item),
      currentStage = Some (stage item), targetStage = Some (next_stage (stage item)),
      alert_semanticScore = or_default (semantic_score item) 0,
      storagePressure = Some ?p, reason = reason a,
      severity = alert_severity_of (semantic_score item) (next_stage (stage item)),
      alertType = alert_type_of (semantic_score item) (next_stage (stage item)),
      simulatedYear = yr, dismissed = False \<rparr>"
    by simp
  show "itemId a = Some (item_id item)" "itemTitle a = Some (title item)"
    "currentStage a = Some (stage item)" "targetStage a = Some (next_stage (stage item))"
    "alert_semanticScore a = or_default (semantic_score item) 0"
    "severity a = alert_severity_of (semantic_score item) (next_stage (stage item))"
    "alertType a = alert_type_of (semantic_score item) (next_stage (stage item))"
    "simulatedYear a = yr"
    by (subst a, simp)+
qed

lemma raised_severity:
  "raises_alert item \<Longrightarrow>
   alert_severity_of (semantic_score item) (next_stage (stage item)) =
     (if 70 < or_default (semantic_score item) 0 \<and> next_stage (stage item) = DELETED
      then Critical else Warning)"
  by (auto simp: raises_alert_def alert_severity_of_def)

lemma raised_type:
  "raises_alert item \<Longrightarrow>
   alert_type_of (semantic_score item) (next_stage (stage item)) =
     (if next_stage (stage item) = DELETED then item_deleted else high_value_risk)"
  by (auto simp: raises_alert_def alert_type_of_def)


section \<open>One stage per cycle\<close>

text \<open>
  Claim C1.  One call of \<open>processDecayEvent\<close> moves no item by more than one stage: every
  row of \<open>archive_items\<close> keeps its id and ends at its stage or at the next one (ids are the
  primary key of the table, hence distinct).  In particular, for a single FULL item of
  1000 KB with score 10, storage 1000 and new capacity 500, the cycle logs exactly one
  transition FULL to COMPRESSED with new size 700, the item is COMPRESSED with 700 KB after
  the cycle, and the decay event records storage 700 against capacity 500: the pressure
  remains and the item is not degraded again.
\<close>

theorem one_stage_per_cycle:
  "(distinct (map item_id (archive_items w)) \<longrightarrow>
      list_all2 (\<lambda>before after. item_id after = item_id before \<and>
                   stage_rank (stage before) \<le> stage_rank (stage after) \<and>
                   stage_rank (stage after) \<le> stage_rank (stage before) + 1)
        (archive_items w) (archive_items (processDecayEvent w))) \<and>
   (user w = Some uid \<and> settings w = Some s \<and>
    current_year s + decay_interval_years s \<le> total_years s \<and>
    decayed_capacity (current_capacity_kb s) (decay_percent s) = 500 \<and>
    archive_items w = [item] \<and> item_owner_id item = uid \<and> stage item = FULL \<and>
    current_size_kb item = 1000 \<and> semantic_score item = Some 10 \<longrightarrow>
      archive_items (processDecayEvent w) = [item\<lparr> stage := COMPRESSED, current_size_kb := 700 \<rparr>] \<and>
      (\<exists>l. new_logs w (processDecayEvent w) = [l] \<and> log_item_id l = item_id item \<and>
           prev_stage l = FULL \<and> new_stage l = COMPRESSED \<and>
           size_before_kb l = 1000 \<and> size_after_kb l = 700) \<and>
      (\<exists>e. decay_events (processDecayEvent w) = decay_events w @ [e] \<and>
           capacity_after_kb e = 500 \<and> storage_before_kb e = 1000 \<and>
           storage_after_kb e = 700 \<and> items_affected e = 1))"
proof (intro conjI impI)
  assume d: "distinct (map item_id (archive_items w))"
  from processDecayEvent_items [OF d]
  obtain ys where ys: "archive_items (processDecayEvent w) =
      map (\<lambda>r. if r \<in> set ys then degraded r else r) (archive_items w)"
    by blast
  show "list_all2 (\<lambda>before after. item_id after = item_id before \<and>
                   stage_rank (stage before) \<le> stage_rank (stage after) \<and>
                   stage_rank (stage after) \<le> stage_rank (stage before) + 1)
        (archive_items w) (archive_items (processDecayEvent w))"
    unfolding ys
    by (simp add: list.rel_map list_all2_same degraded_def stage_rank_next_stage)
next
  assume a: "user w = Some uid \<and> settings w = Some s \<and>
    current_year s + decay_interval_years s \<le> total_years s \<and>
    decayed_capacity (current_capacity_kb s) (decay_percent s) = 500 \<and>
    archive_items w = [item] \<and> item_owner_id item = uid \<and> stage item = FULL \<and>
    current_size_kb item = 1000 \<and> semantic_score item = Some 10"
  then have u: "user w = Some uid" and s: "settings w = Some s"
    and r: "current_year s + decay_interval_years s \<le> total_years s"
    and cap: "decayed_capacity (current_capacity_kb s) (decay_percent s) = 500"
    and rows: "archive_items w = [item]" and own: "item_owner_id item = uid"
    and st: "stage item = FULL" and sz: "current_size_kb item = 1000"
    by simp_all
  have sel: "select_items uid (archive_items w) = [item]"
    using select_items_single [OF own] st rows by simp
  have nsz: "next_size item = 700"
    by (simp add: next_size_def st sz next_degradation_def next_size_full_1000)
  define items where "items = select_items uid (archive_items w)"
  define cap' where "cap' = decayed_capacity (current_capacity_kb s) (decay_percent s)"
  define yr where "yr = current_year s + decay_interval_years s"
  define sb where "sb = sum_list (map current_size_kb items)"
  define e0 where "e0 = \<lparr> event_id = new_event_id (decay_events w), event_owner_id = uid,
      event_no = jsnum_floor (js_div (of_int yr) (of_int (decay_interval_years s))),
      simulated_year = yr, capacity_before_kb = current_capacity_kb s,
      capacity_after_kb = cap', storage_before_kb = sb, storage_after_kb = sb,
      items_affected = 0 \<rparr>"
  define st1 where "st1 = degradation_phase uid cap' yr (new_event_id (decay_events w)) items sb
      (w\<lparr> decay_events := decay_events w @ [e0] \<rparr>)"
  note un = processDecayEvent_unfold [OF u s r items_def cap'_def yr_def sb_def e0_def st1_def]
  have vals: "items = [item]" "cap' = 500" "sb = current_size_kb item"
    using sel cap by (simp_all add: items_def cap'_def sb_def)
  have "stage item \<noteq> DELETED" "cap' < current_size_kb item" using st sz vals by simp_all
  from degradation_phase_single [OF this, of uid "new_event_id (decay_events w)" yr
      "w\<lparr> decay_events := decay_events w @ [e0] \<rparr>"]
  obtain l where l: "logged_as uid (Some (new_event_id (decay_events w))) item l"
    and l1: "degradation_logs (cycle_world st1) = degradation_logs w @ [l]"
    and l2: "archive_items (cycle_world st1) = apply_degradation (archive_items w) item"
    and l3: "currentStorage st1 = next_size item"
    and l4: "itemsAffected st1 = 1"
    unfolding st1_def vals by auto
  show "archive_items (processDecayEvent w) = [item\<lparr> stage := COMPRESSED, current_size_kb := 700 \<rparr>]"
    unfolding un(3) l2 rows by (simp add: apply_degradation_def update_item_def st nsz)
  have "new_logs w (processDecayEvent w) = [l]"
    by (simp add: new_logs_def un(2) l1)
  then show "\<exists>l. new_logs w (processDecayEvent w) = [l] \<and> log_item_id l = item_id item \<and>
           prev_stage l = FULL \<and> new_stage l = COMPRESSED \<and>
           size_before_kb l = 1000 \<and> size_after_kb l = 700"
    using logged_as_fields [OF l] st sz nsz by simp
  have "decay_events (processDecayEvent w) =
          decay_events w @ [e0\<lparr> storage_after_kb := 700, items_affected := 1 \<rparr>]"
    unfolding un(1) l3 l4 nsz by simp
  then show "\<exists>e. decay_events (processDecayEvent w) = decay_events w @ [e] \<and>
           capacity_after_kb e = 500 \<and> storage_before_kb e = 1000 \<and>
           storage_after_kb e = 700 \<and> items_affected e = 1"
    by (simp add: e0_def vals sz)
qed

lemma decayed_capacity_half: "decayed_capacity 1000 50 = 500"
  by code_simp

theorem one_stage_per_cycle_witness:
  "distinct (map item_id (archive_items
      (example_world (initial_settings\<lparr> current_capacity_kb := 1000, decay_percent := 50 \<rparr>) False
         [example_item ''a'' 1000 FULL (Some 10)]))) \<and>
   archive_items (processDecayEvent
      (example_world (initial_settings\<lparr> current_capacity_kb := 1000, decay_percent := 50 \<rparr>) False
         [example_item ''a'' 1000 FULL (Some 10)])) =
     [(example_item ''a'' 1000 FULL (Some 10))\<lparr> stage := COMPRESSED, current_size_kb := 700 \<rparr>] \<and>
   list_all2 (\<lambda>before after. item_id after = item_id before \<and>
                stage_rank (stage before) \<le> stage_rank (stage after) \<and>
                stage_rank (stage after) \<le> stage_rank (stage before) + 1)
     (archive_items
        (example_world (initial_settings\<lparr> current_capacity_kb := 1000, decay_percent := 50 \<rparr>) False
           [example_item ''a'' 1000 FULL (Some 10)]))
     (archive_items (processDecayEvent
        (example_world (initial_settings\<lparr> current_capacity_kb := 1000, decay_percent := 50 \<rparr>) False
           [example_item ''a'' 1000 FULL (Some 10)])))"
proof -
  let ?s = "initial_settings\<lparr> current_capacity_kb := 1000, decay_percent := 50 \<rparr>"
  let ?item = "example_item ''a'' 1000 FULL (Some 10)"
  let ?w = "example_world ?s False [?item]"
  have d: "distinct (map item_id (archive_items ?w))"
    by (simp add: example_world_def)
  have h: "user ?w = Some ''u1'' \<and> settings ?w = Some ?s \<and>
    current_year ?s + decay_interval_years ?s \<le> total_years ?s \<and>
    decayed_capacity (current_capacity_kb ?s) (decay_percent ?s) = 500 \<and>
    archive_items ?w = [?item] \<and> item_owner_id ?item = ''u1'' \<and> stage ?item = FULL \<and>
    current_size_kb ?item = 1000 \<and> semantic_score ?item = Some 10"
    by (simp add: example_world_def initial_settings_def example_item_def decayed_capacity_half)
  note t = one_stage_per_cycle [of ?w "''u1''" ?s ?item]
  from t [THEN conjunct1, rule_format, OF d] t [THEN conjunct2, rule_format, OF h] d
  show ?thesis by simp
qed

section \<open>Capacity decay\<close>

lemma decayed_capacity_example:
  "decayed_capacity 1000000 5 = 950000" "decayed_capacity 950000 5 = 902500"
  by code_simp+

lemma update_settings_row_filter:
  assumes "\<And>row. settings_id (f row) = settings_id row"
  shows "map g (filter (\<lambda>row. settings_id row = i) (update_settings_row i f rows)) =
         map (\<lambda>row. g (f row)) (filter (\<lambda>row. settings_id row = i) rows)"
  by (induction rows) (simp_all add: update_settings_row_def assms)

text \<open>
  Claim C2.  A decay cycle that runs sets the capacity, in the settings state and in the
  settings row of the store, to \<open>floor(capacityBefore * (1 - decayPercent / 100))\<close>, each
  operation being the binary64 one.  The factor applies to the current capacity, so a second
  cycle decays the result of the first.  From 1,000,000 KB at 5 percent one cycle gives
  exactly 950,000 KB.
\<close>

theorem capacity_decays_from_current:
  assumes "user w = Some uid" and "settings w = Some s"
      and "current_year s + decay_interval_years s \<le> total_years s"
  shows "map_option current_capacity_kb (settings (processDecayEvent w)) =
           Some \<lfloor>js_mul (of_int (current_capacity_kb s)) (js_sub 1 (fl (decay_percent s / 100)))\<rfloor> \<and>
         map current_capacity_kb
             (filter (\<lambda>row. settings_id row = settings_id s)
                (simulation_settings_table (processDecayEvent w))) =
           map (\<lambda>row. decayed_capacity (current_capacity_kb s) (decay_percent s))
             (filter (\<lambda>row. settings_id row = settings_id s) (simulation_settings_table w)) \<and>
         (current_year s + 2 * decay_interval_years s \<le> total_years s \<longrightarrow>
            map_option current_capacity_kb (settings (processDecayEvent (processDecayEvent w))) =
              Some (decayed_capacity (decayed_capacity (current_capacity_kb s) (decay_percent s))
                      (decay_percent s))) \<and>
         (current_capacity_kb s = 1000000 \<and> decay_percent s = 5 \<longrightarrow>
            map_option current_capacity_kb (settings (processDecayEvent w)) = Some 950000)"
proof -
  let ?c1 = "decayed_capacity (current_capacity_kb s) (decay_percent s)"
  let ?s1 = "s\<lparr> current_year := current_year s + decay_interval_years s,
                current_capacity_kb := ?c1 \<rparr>"
  note one = processDecayEvent_settings [OF assms]
  have a: "map_option current_capacity_kb (settings (processDecayEvent w)) = Some ?c1"
    using one(1) by simp
  have b: "map current_capacity_kb
             (filter (\<lambda>row. settings_id row = settings_id s)
                (simulation_settings_table (processDecayEvent w))) =
           map (\<lambda>row. ?c1)
             (filter (\<lambda>row. settings_id row = settings_id s) (simulation_settings_table w))"
    unfolding one(5) by (subst update_settings_row_filter) simp_all
  have c: "map_option current_capacity_kb (settings (processDecayEvent (processDecayEvent w))) =
              Some (decayed_capacity ?c1 (decay_percent s))"
    if "current_year s + 2 * decay_interval_years s \<le> total_years s"
  proof -
    have "current_year ?s1 + decay_interval_years ?s1 \<le> total_years ?s1"
      using that by simp
    from processDecayEvent_settings(1) [OF one(2) one(1) this] show ?thesis by simp
  qed
  have d: "map_option current_capacity_kb (settings (processDecayEvent w)) = Some 950000"
    if "current_capacity_kb s = 1000000 \<and> decay_percent s = 5"
    using a that by (simp add: decayed_capacity_example)
  show ?thesis using a b c d by (simp add: decayed_capacity_def)
qed

theorem capacity_decays_from_current_witness:
  "map_option current_capacity_kb
     (settings (processDecayEvent (example_world initial_settings False []))) = Some 950000 \<and>
   map_option current_capacity_kb
     (settings (processDecayEvent (processDecayEvent (example_world initial_settings False [])))) =
     Some 902500 \<and>
   map current_capacity_kb
     (simulation_settings_table (processDecayEvent (example_world initial_settings False []))) =
     [950000]"
proof -
  let ?w = "example_world initial_settings False []"
  have u: "user ?w = Some ''u1''" and s: "settings ?w = Some initial_settings"
    by (simp_all add: example_world_def)
  have y: "current_year initial_settings + decay_interval_years initial_settings
             \<le> total_years initial_settings"
    by (simp add: initial_settings_def)
  have y2: "current_year initial_settings + 2 * decay_interval_years initial_settings
             \<le> total_years initial_settings"
    by (simp add: initial_settings_def)
  have c: "current_capacity_kb initial_settings = 1000000" "decay_percent initial_settings = 5"
    by (simp_all add: initial_settings_def)
  have t: "simulation_settings_table ?w = [initial_settings]"
    by (simp add: example_world_def)
  have f: "filter (\<lambda>row. settings_id row = settings_id initial_settings)
             (simulation_settings_table (processDecayEvent ?w)) =
           simulation_settings_table (processDecayEvent ?w)"
    unfolding processDecayEvent_settings(5) [OF u s y] t update_settings_row_def by simp
  from capacity_decays_from_current [OF u s y] y2 c t f
  show ?thesis by (simp add: decayed_capacity_example)
qed

section \<open>The order of degradation\<close>





section \<open>The manual step\<close>

text \<open>
  Claim C4, as stated, fails: \<open>stepNextDecay\<close> has no test of \<open>isRunning\<close>.  Called while
  \<open>isRunning\<close> is true it runs a decay cycle: the year goes from 0 to 2 and the decay event
  of year 2 is appended.
\<close>

theorem step_while_running_counterexample:
  "isRunning (example_world initial_settings True [example_item ''a'' 1000 FULL (Some 10)]) \<and>
   map_option current_year
     (settings (stepNextDecay
        (example_world initial_settings True [example_item ''a'' 1000 FULL (Some 10)]))) = Some 2 \<and>
   map simulated_year
     (decay_events (stepNextDecay
        (example_world initial_settings True [example_item ''a'' 1000 FULL (Some 10)]))) = [2]"
  by code_simp

text \<open>
  Claim C4, amended.  \<open>stepNextDecay\<close> is one call of \<open>processDecayEvent\<close> whatever
  \<open>isRunning\<close> is: when a cycle is due it advances the year by the interval, appends one
  decay event and leaves \<open>isRunning\<close> as it was.  The guard is in the controls: the Step
  button is disabled while \<open>isRunning\<close> is true, so a click then changes nothing, and a
  click while paused is one call of \<open>stepNextDecay\<close>.
\<close>

theorem step_ignores_isRunning:
  assumes "user w = Some uid" and "settings w = Some s"
      and "current_year s + decay_interval_years s \<le> total_years s"
  shows "stepNextDecay w = processDecayEvent w \<and>
         map_option current_year (settings (stepNextDecay w)) =
           Some (current_year s + decay_interval_years s) \<and>
         length (decay_events (stepNextDecay w)) = Suc (length (decay_events w)) \<and>
         isRunning (stepNextDecay w) = isRunning w \<and>
         step_button_click w = (if isRunning w then w else processDecayEvent w)"
  using processDecayEvent_settings [OF assms]
  by (simp add: stepNextDecay_def step_button_click_def)

theorem step_ignores_isRunning_witness:
  "length (decay_events (stepNextDecay (example_world initial_settings True []))) = 1 \<and>
   isRunning (stepNextDecay (example_world initial_settings True [])) \<and>
   step_button_click (example_world initial_settings True []) =
     example_world initial_settings True [] \<and>
   length (decay_events (step_button_click (example_world initial_settings False []))) = 1"
proof -
  let ?r = "example_world initial_settings True []"
  let ?p = "example_world initial_settings False []"
  have u: "user ?r = Some ''u1''" "user ?p = Some ''u1''"
    and s: "settings ?r = Some initial_settings" "settings ?p = Some initial_settings"
    and r: "isRunning ?r" "\<not> isRunning ?p" "decay_events ?r = []" "decay_events ?p = []"
    by (simp_all add: example_world_def)
  have y: "current_year initial_settings + decay_interval_years initial_settings
             \<le> total_years initial_settings"
    by (simp add: initial_settings_def)
  note running = step_ignores_isRunning [OF u(1) s(1) y, THEN conjunct2, THEN conjunct2]
  note paused = step_ignores_isRunning [OF u(2) s(2) y]
  have 1: "length (decay_events (stepNextDecay ?r)) = 1"
    using running [THEN conjunct1] r(3) by simp
  have 2: "isRunning (stepNextDecay ?r)"
    using running [THEN conjunct2, THEN conjunct1] r(1) by simp
  have 3: "step_button_click ?r = ?r"
    using running [THEN conjunct2, THEN conjunct2] r(1) by simp
  have "step_button_click ?p = stepNextDecay ?p"
    using paused [THEN conjunct1] paused [THEN conjunct2, THEN conjunct2, THEN conjunct2, THEN conjunct2]
      r(2) by simp
  then have 4: "length (decay_events (step_button_click ?p)) = 1"
    using paused [THEN conjunct2, THEN conjunct2, THEN conjunct1] r(4) by simp
  show ?thesis using 1 2 3 4 by simp
qed

section \<open>The stage machine\<close>

text \<open>
  Claim C5, as stated, fails: the new size is not the current size times the multiplier.
  The code takes \<open>Math.floor\<close> of the product computed in binary64, where 0.7 is a value
  slightly below seven tenths.  A FULL item of 90 KB is compressed to 62 KB, while 90 times
  0.7 is 63.
\<close>

theorem retention_multiplier_counterexample:
  "map (\<lambda>row. (stage row, current_size_kb row)) (archive_items ninety_kb_world) = [(FULL, 90)] \<and>
   map (\<lambda>row. (stage row, current_size_kb row)) (archive_items (processDecayEvent ninety_kb_world)) =
     [(COMPRESSED, 62)] \<and>
   map (\<lambda>l. (prev_stage l, new_stage l, size_before_kb l, size_after_kb l))
     (new_logs ninety_kb_world (processDecayEvent ninety_kb_world)) = [(FULL, COMPRESSED, 90, 62)] \<and>
   90 * spec_retention_multiplier FULL = 63"
  by code_simp

text \<open>
  Claim C5, amended.  Every transition that a cycle logs starts at a stage other than DELETED
  and ends exactly one stage further in the order FULL, COMPRESSED, SUMMARIZED, MINIMAL,
  DELETED.  Its new size is the floor of the binary64 product of the item's current size (the
  \<open>current_size_kb\<close> of its row before the cycle, not \<open>size_kb\<close>) and the multiplier of the
  edge: 0.7, 0.3, 0.1, and 0 for the edge to DELETED, where the size is 0.  Row by row, the
  table after the cycle holds either the row as it was, or the row with that next stage and
  that size and nothing else changed, and then the transition is logged.  A row that is
  DELETED is left as it is.
\<close>

theorem transitions_advance_one_stage:
  assumes "distinct (map item_id (archive_items w))"
  shows "(\<forall>l \<in> set (new_logs w (processDecayEvent w)).
            prev_stage l \<noteq> DELETED \<and>
            stage_rank (new_stage l) = stage_rank (prev_stage l) + 1 \<and>
            size_after_kb l =
              \<lfloor>js_mul (of_int (size_before_kb l)) (fl (spec_retention_multiplier (prev_stage l)))\<rfloor> \<and>
            (new_stage l = DELETED \<longrightarrow> size_after_kb l = 0) \<and>
            (\<exists>before \<in> set (archive_items w).
               item_id before = log_item_id l \<and> stage before = prev_stage l \<and>
               current_size_kb before = size_before_kb l \<and>
               before\<lparr> stage := new_stage l, current_size_kb := size_after_kb l \<rparr>
                 \<in> set (archive_items (processDecayEvent w)))) \<and>
         (\<forall>row \<in> set (archive_items w).
            stage row = DELETED \<longrightarrow> row \<in> set (archive_items (processDecayEvent w))) \<and>
         list_all2
           (\<lambda>row row'.
              row' = row \<or>
              stage row \<noteq> DELETED \<and>
              stage_rank (stage row') = stage_rank (stage row) + 1 \<and>
              current_size_kb row' =
                \<lfloor>js_mul (of_int (current_size_kb row)) (fl (spec_retention_multiplier (stage row)))\<rfloor> \<and>
              row' = row\<lparr> stage := stage row', current_size_kb := current_size_kb row' \<rparr> \<and>
              item_id row \<in> set (map log_item_id (new_logs w (processDecayEvent w))))
           (archive_items w) (archive_items (processDecayEvent w))"
proof (cases "settings w = None \<or> user w = None \<or>
           (\<exists>s. settings w = Some s \<and> total_years s < current_year s + decay_interval_years s)")
  case True
  from processDecayEvent_idle [OF True]
  show ?thesis by (simp add: new_logs_def list_all2_same)
next
  case False
  then obtain s uid where s: "settings w = Some s" and u: "user w = Some uid"
    and r: "current_year s + decay_interval_years s \<le> total_years s"
    by (cases "settings w"; cases "user w") (simp_all add: not_less)
  let ?xs = "sortedItems (select_items uid (archive_items w))"
  let ?ev = "Some (new_event_id (decay_events w))"
  from processDecayEvent_effect_distinct [OF u s r assms]
  obtain k L where L: "list_all2 (logged_as uid ?ev) (take k ?xs) L"
    and logs: "new_logs w (processDecayEvent w) = L"
    and rows: "archive_items (processDecayEvent w) =
      map (\<lambda>r. if r \<in> set (take k ?xs) then degraded r else r) (archive_items w)"
    by blast
  have sel: "\<And>x. x \<in> set (take k ?xs) \<Longrightarrow> x \<in> set (archive_items w) \<and> stage x \<noteq> DELETED"
    using set_take_subset [of k ?xs] by (auto simp: set_select_items)
  have part1: "prev_stage l \<noteq> DELETED \<and>
            stage_rank (new_stage l) = stage_rank (prev_stage l) + 1 \<and>
            size_after_kb l =
              \<lfloor>js_mul (of_int (size_before_kb l)) (fl (spec_retention_multiplier (prev_stage l)))\<rfloor> \<and>
            (new_stage l = DELETED \<longrightarrow> size_after_kb l = 0) \<and>
            (\<exists>before \<in> set (archive_items w).
               item_id before = log_item_id l \<and> stage before = prev_stage l \<and>
               current_size_kb before = size_before_kb l \<and>
               before\<lparr> stage := new_stage l, current_size_kb := size_after_kb l \<rparr>
                 \<in> set (archive_items (processDecayEvent w)))"
    if "l \<in> set L" for l
  proof -
    from list_all2_witness [OF L that]
    obtain x where x: "x \<in> set (take k ?xs)" and lx: "logged_as uid ?ev x l" by blast
    note f = logged_as_fields [OF lx]
    from sel [OF x] have xin: "x \<in> set (archive_items w)" and nd: "stage x \<noteq> DELETED"
      by simp_all
    have "degraded x \<in> set (archive_items (processDecayEvent w))"
      unfolding rows using xin x by (auto simp: image_iff intro!: bexI [of _ x])
    then have after: "x\<lparr> stage := new_stage l, current_size_kb := size_after_kb l \<rparr>
        \<in> set (archive_items (processDecayEvent w))"
      by (simp add: degraded_def f)
    have del: "size_after_kb l = 0" if "new_stage l = DELETED"
      using that nd f(3,5) by (cases "stage x") (simp_all add: next_size_def next_degradation_def)
    show ?thesis
      using f nd stage_rank_next [OF nd] next_size_multiplier [OF nd] xin after del
      by (intro conjI impI bexI [of _ x]) simp_all
  qed
  have part2: "row \<in> set (archive_items (processDecayEvent w))"
    if "row \<in> set (archive_items w)" "stage row = DELETED" for row
  proof -
    have "row \<notin> set (take k ?xs)" using sel that(2) by blast
    then show ?thesis unfolding rows using that(1) by (auto simp: image_iff intro!: bexI [of _ row])
  qed
  have part3: "stage x \<noteq> DELETED \<and>
        stage_rank (stage (degraded x)) = stage_rank (stage x) + 1 \<and>
        current_size_kb (degraded x) =
          \<lfloor>js_mul (of_int (current_size_kb x)) (fl (spec_retention_multiplier (stage x)))\<rfloor> \<and>
        degraded x = x\<lparr> stage := stage (degraded x), current_size_kb := current_size_kb (degraded x) \<rparr> \<and>
        item_id x \<in> set (map log_item_id L)"
    if x: "x \<in> set (take k ?xs)" for x
  proof -
    from sel [OF x] have nd: "stage x \<noteq> DELETED" by simp
    from x obtain i where i: "i < length (take k ?xs)" "take k ?xs ! i = x"
      unfolding in_set_conv_nth by blast
    have len: "length (take k ?xs) = length L" using L by (rule list_all2_lengthD)
    have "logged_as uid ?ev (take k ?xs ! i) (L ! i)" using L i(1) by (rule list_all2_nthD)
    from logged_as_fields(1) [OF this] have "log_item_id (L ! i) = item_id x" using i(2) by simp
    moreover have "L ! i \<in> set L" using i(1) unfolding len by (rule nth_mem)
    ultimately have "item_id x \<in> set (map log_item_id L)" by force
    then show ?thesis
      using nd stage_rank_next [OF nd] next_size_multiplier [OF nd]
      by (simp add: degraded_def)
  qed
  let ?P = "\<lambda>row row'.
      row' = row \<or>
      stage row \<noteq> DELETED \<and>
      stage_rank (stage row') = stage_rank (stage row) + 1 \<and>
      current_size_kb row' =
        \<lfloor>js_mul (of_int (current_size_kb row)) (fl (spec_retention_multiplier (stage row)))\<rfloor> \<and>
      row' = row\<lparr> stage := stage row', current_size_kb := current_size_kb row' \<rparr> \<and>
      item_id row \<in> set (map log_item_id L)"
  have part4: "list_all2 ?P (archive_items w) (archive_items (processDecayEvent w))"
    unfolding rows list_all2_map2 list_all2_same
  proof
    fix x
    assume "x \<in> set (archive_items w)"
    show "?P x (if x \<in> set (take k ?xs) then degraded x else x)"
    proof (cases "x \<in> set (take k ?xs)")
      case True
      show ?thesis unfolding if_P [OF True] by (rule disjI2) (rule part3 [OF True])
    next
      case False
      show ?thesis unfolding if_not_P [OF False] by (rule disjI1) (rule refl)
    qed
  qed
  have p1: "\<forall>l \<in> set L.
            prev_stage l \<noteq> DELETED \<and>
            stage_rank (new_stage l) = stage_rank (prev_stage l) + 1 \<and>
            size_after_kb l =
              \<lfloor>js_mul (of_int (size_before_kb l)) (fl (spec_retention_multiplier (prev_stage l)))\<rfloor> \<and>
            (new_stage l = DELETED \<longrightarrow> size_after_kb l = 0) \<and>
            (\<exists>before \<in> set (archive_items w).
               item_id before = log_item_id l \<and> stage before = prev_stage l \<and>
               current_size_kb before = size_before_kb l \<and>
               before\<lparr> stage := new_stage l, current_size_kb := size_after_kb l \<rparr>
                 \<in> set (archive_items (processDecayEvent w)))"
    using part1 by blast
  have p2: "\<forall>row \<in> set (archive_items w).
            stage row = DELETED \<longrightarrow> row \<in> set (archive_items (processDecayEvent w))"
    using part2 by blast
  show ?thesis unfolding logs using p1 p2 part4 by (intro conjI)
qed

lemma four_stage_world_facts:
  "map (\<lambda>l. (log_item_id l, prev_stage l, new_stage l, size_before_kb l, size_after_kb l))
     (new_logs four_stage_world (processDecayEvent four_stage_world)) =
     [(''f'', FULL, COMPRESSED, 1000, 700), (''c'', COMPRESSED, SUMMARIZED, 1000, 300),
      (''s'', SUMMARIZED, MINIMAL, 1000, 100), (''m'', MINIMAL, DELETED, 1000, 0)]"
  "map (\<lambda>row. (item_id row, size_kb row, stage row, current_size_kb row))
     (archive_items (processDecayEvent four_stage_world)) =
     [(''f'', 1000, COMPRESSED, 700), (''c'', 1500, SUMMARIZED, 300), (''s'', 5000, MINIMAL, 100),
      (''m'', 50000, DELETED, 0), (''d'', 1000, DELETED, 0)]"
  by code_simp+

theorem transitions_advance_one_stage_witness:
  "distinct (map item_id (archive_items four_stage_world)) \<and>
   map (\<lambda>row. (item_id row, size_kb row, stage row, current_size_kb row))
     (archive_items four_stage_world) =
     [(''f'', 1000, FULL, 1000), (''c'', 1500, COMPRESSED, 1000), (''s'', 5000, SUMMARIZED, 1000),
      (''m'', 50000, MINIMAL, 1000), (''d'', 1000, DELETED, 0)] \<and>
   map (\<lambda>l. (log_item_id l, prev_stage l, new_stage l, size_before_kb l, size_after_kb l))
     (new_logs four_stage_world (processDecayEvent four_stage_world)) =
     [(''f'', FULL, COMPRESSED, 1000, 700), (''c'', COMPRESSED, SUMMARIZED, 1000, 300),
      (''s'', SUMMARIZED, MINIMAL, 1000, 100), (''m'', MINIMAL, DELETED, 1000, 0)] \<and>
   map (\<lambda>row. (item_id row, size_kb row, stage row, current_size_kb row))
     (archive_items (processDecayEvent four_stage_world)) =
     [(''f'', 1000, COMPRESSED, 700), (''c'', 1500, SUMMARIZED, 300), (''s'', 5000, MINIMAL, 100),
      (''m'', 50000, DELETED, 0), (''d'', 1000, DELETED, 0)] \<and>
   list_all
     (\<lambda>l. stage_rank (new_stage l) = stage_rank (prev_stage l) + 1 \<and>
          size_after_kb l =
            \<lfloor>js_mul (of_int (size_before_kb l)) (fl (spec_retention_multiplier (prev_stage l)))\<rfloor>)
     (new_logs four_stage_world (processDecayEvent four_stage_world)) \<and>
   (example_item ''d'' 1000 DELETED (Some 5))\<lparr> current_size_kb := 0 \<rparr>
     \<in> set (archive_items (processDecayEvent four_stage_world))"
proof -
  let ?w = "four_stage_world"
  let ?L = "new_logs ?w (processDecayEvent ?w)"
  let ?d = "(example_item ''d'' 1000 DELETED (Some 5))\<lparr> current_size_kb := 0 \<rparr>"
  have d: "distinct (map item_id (archive_items ?w))"
    by (simp add: four_stage_world_def example_world_def example_item_def)
  have b: "map (\<lambda>row. (item_id row, size_kb row, stage row, current_size_kb row)) (archive_items ?w) =
     [(''f'', 1000, FULL, 1000), (''c'', 1500, COMPRESSED, 1000), (''s'', 5000, SUMMARIZED, 1000),
      (''m'', 50000, MINIMAL, 1000), (''d'', 1000, DELETED, 0)]"
    by (simp add: four_stage_world_def example_world_def example_item_def)
  have c: "?d \<in> set (archive_items ?w)" "stage ?d = DELETED"
    by (simp_all add: four_stage_world_def example_world_def example_item_def)
  note t = transitions_advance_one_stage [OF d]
  have "list_all
     (\<lambda>l. stage_rank (new_stage l) = stage_rank (prev_stage l) + 1 \<and>
          size_after_kb l =
            \<lfloor>js_mul (of_int (size_before_kb l)) (fl (spec_retention_multiplier (prev_stage l)))\<rfloor>) ?L"
    unfolding list_all_iff using t [THEN conjunct1] by blast
  moreover have "?d \<in> set (archive_items (processDecayEvent ?w))"
    using t [THEN conjunct2, THEN conjunct1, rule_format, OF c] .
  ultimately show ?thesis using d b four_stage_world_facts by (intro conjI)
qed

section \<open>The valuation and the configured weights\<close>

text \<open>
  Claim C6 against the code.  The owner saves the weights 0.5, 0.25, 0.25 (already
  normalized, and stored as they are), and the analysis returns relevance 100, uniqueness 0,
  reconstructability 0.  With the configured weights the score is 50; the handler computes
  \<open>100 * 0.4 = 40\<close>, because it combines the clamped scores with the literals 0.4, 0.35
  and 0.25 and never reads the weights.
\<close>

theorem configured_weights_not_used:
  "handleSaveWeights
     \<lparr> weight_relevance = 1 / 2, weight_uniqueness = 1 / 4, weight_reconstructability = 1 / 4 \<rparr> =
     \<lparr> norm_relevance = Num (1 / 2), norm_uniqueness = Num (1 / 4),
       norm_reconstructability = Num (1 / 4) \<rparr> \<and>
   spec_semantic_score
     \<lparr> weight_relevance = 1 / 2, weight_uniqueness = 1 / 4, weight_reconstructability = 1 / 4 \<rparr>
     100 0 0 = 50 \<and>
   analyze_scores 100 0 0 =
     \<lparr> relevance = 100, uniqueness = 0, reconstructability = 0, semanticScore = 40 \<rparr>"
  by code_simp

text \<open>
  The handler's score stays within 0..100 in binary64 arithmetic, whatever the tool call
  returns: the inputs are clamped and the three literals round so that the bounds 40, 35
  and 25 of the three products add up exactly.
\<close>

lemma products_of_hundred:
  "fl (100 * fl (2 / 5)) = 40" "fl (100 * fl (7 / 20)) = 35" "fl (100 * fl (1 / 4)) = 25"
  "fl 75 = 75" "fl 100 = 100" "0 < fl (2 / 5)" "0 < fl (7 / 20)" "0 < fl (1 / 4)"
  by code_simp+

lemma weighted_score_range:
  assumes "0 \<le> r" "r \<le> 100" "0 \<le> u" "u \<le> 100" "0 \<le> c" "c \<le> 100"
  shows "0 \<le> weighted_score r u c" "weighted_score r u c \<le> 100"
proof -
  let ?a = "js_mul r (fl (2 / 5))" and ?b = "js_mul u (fl (7 / 20))" and ?c = "js_mul c (fl (1 / 4))"
  have a: "0 \<le> ?a" "?a \<le> 40"
    using assms(1,2) products_of_hundred(1,6) fl_nonneg [of "r * fl (2 / 5)"]
      fl_mono [of "r * fl (2 / 5)" "100 * fl (2 / 5)"]
    by (simp_all add: js_mul_def)
  have b: "0 \<le> ?b" "?b \<le> 35"
    using assms(3,4) products_of_hundred(2,7) fl_nonneg [of "u * fl (7 / 20)"]
      fl_mono [of "u * fl (7 / 20)" "100 * fl (7 / 20)"]
    by (simp_all add: js_mul_def)
  have c: "0 \<le> ?c" "?c \<le> 25"
    using assms(5,6) products_of_hundred(3,8) fl_nonneg [of "c * fl (1 / 4)"]
      fl_mono [of "c * fl (1 / 4)" "100 * fl (1 / 4)"]
    by (simp_all add: js_mul_def)
  have ab: "0 \<le> js_add ?a ?b" "js_add ?a ?b \<le> 75"
    using a b fl_nonneg [of "?a + ?b"] fl_le [of "?a + ?b" 75] products_of_hundred(4)
    by (simp_all add: js_add_def)
  show "0 \<le> weighted_score r u c" "weighted_score r u c \<le> 100"
    using ab c fl_nonneg [of "js_add ?a ?b + ?c"] fl_le [of "js_add ?a ?b + ?c" 100]
      products_of_hundred(5)
    by (simp_all add: weighted_score_def js_add_def)
qed

lemma analyze_scores_range:
  "0 \<le> relevance (analyze_scores r u c) \<and> relevance (analyze_scores r u c) \<le> 100 \<and>
   0 \<le> uniqueness (analyze_scores r u c) \<and> uniqueness (analyze_scores r u c) \<le> 100 \<and>
   0 \<le> reconstructability (analyze_scores r u c) \<and> reconstructability (analyze_scores r u c) \<le> 100 \<and>
   0 \<le> semanticScore (analyze_scores r u c) \<and> semanticScore (analyze_scores r u c) \<le> 100"
proof -
  have cl: "\<And>x. 0 \<le> clamp_score x \<and> clamp_score x \<le> 100" by (simp add: clamp_score_def)
  show ?thesis
    using weighted_score_range [of "clamp_score r" "clamp_score u" "clamp_score c"] cl
    by (simp add: analyze_scores_def Let_def)
qed

section \<open>The scheduler: thirty cycles in sixty years\<close>

lemma run_cycles:
  assumes "user w = Some uid" "settings w = Some s" "0 \<le> decay_interval_years s"
      and "current_year s + int n * decay_interval_years s \<le> total_years s"
  shows "settings ((processDecayEvent ^^ n) w) =
           Some (s\<lparr> current_year := current_year s + int n * decay_interval_years s,
                    current_capacity_kb :=
                      ((\<lambda>c. decayed_capacity c (decay_percent s)) ^^ n) (current_capacity_kb s) \<rparr>) \<and>
         user ((processDecayEvent ^^ n) w) = Some uid \<and>
         isRunning ((processDecayEvent ^^ n) w) = isRunning w \<and>
         length (decay_events ((processDecayEvent ^^ n) w)) = length (decay_events w) + n"
  using assms(4)
proof (induction n)
  case 0
  then show ?case using assms(1,2) by simp
next
  case (Suc n)
  let ?d = "decay_interval_years s"
  let ?wn = "(processDecayEvent ^^ n) w"
  let ?sn = "s\<lparr> current_year := current_year s + int n * ?d,
                current_capacity_kb :=
                  ((\<lambda>c. decayed_capacity c (decay_percent s)) ^^ n) (current_capacity_kb s) \<rparr>"
  have le: "current_year s + int n * ?d \<le> total_years s"
    using Suc.prems assms(3) by (simp add: algebra_simps)
  from Suc.IH [OF le]
  have sn: "settings ?wn = Some ?sn" and un: "user ?wn = Some uid"
    and rn: "isRunning ?wn = isRunning w"
    and ln: "length (decay_events ?wn) = length (decay_events w) + n"
    by simp_all
  have step: "current_year ?sn + decay_interval_years ?sn \<le> total_years ?sn"
    using Suc.prems by (simp add: algebra_simps)
  show ?case
    using processDecayEvent_settings(1-4) [OF un sn step] rn ln
    by (simp add: algebra_simps)
qed

text \<open>The thirty capacities that follow 1000000 KB at a decay of 5 percent.\<close>

lemma default_capacity_steps:
  "decayed_capacity 1000000 5 = 950000" "decayed_capacity 950000 5 = 902500"
  "decayed_capacity 902500 5 = 857375" "decayed_capacity 857375 5 = 814506"
  "decayed_capacity 814506 5 = 773780" "decayed_capacity 773780 5 = 735091"
  "decayed_capacity 735091 5 = 698336" "decayed_capacity 698336 5 = 663419"
  "decayed_capacity 663419 5 = 630248" "decayed_capacity 630248 5 = 598735"
  "decayed_capacity 598735 5 = 568798" "decayed_capacity 568798 5 = 540358"
  "decayed_capacity 540358 5 = 513340" "decayed_capacity 513340 5 = 487673"
  "decayed_capacity 487673 5 = 463289" "decayed_capacity 463289 5 = 440124"
  "decayed_capacity 440124 5 = 418117" "decayed_capacity 418117 5 = 397211"
  "decayed_capacity 397211 5 = 377350" "decayed_capacity 377350 5 = 358482"
  "decayed_capacity 358482 5 = 340557" "decayed_capacity 340557 5 = 323529"
  "decayed_capacity 323529 5 = 307352" "decayed_capacity 307352 5 = 291984"
  "decayed_capacity 291984 5 = 277384" "decayed_capacity 277384 5 = 263514"
  "decayed_capacity 263514 5 = 250338" "decayed_capacity 250338 5 = 237821"
  "decayed_capacity 237821 5 = 225929" "decayed_capacity 225929 5 = 214632"
  by code_simp+

lemma default_capacity_after_thirty:
  "((\<lambda>c. decayed_capacity c 5) ^^ 30) 1000000 = 214632"
  by (simp add: eval_nat_numeral default_capacity_steps)

text \<open>
  Claim C7.  From year 0, with 60 total years and a decay interval of 2 years, each of the
  first thirty calls of \<open>processDecayEvent\<close> advances the year by two, replaces the capacity
  \<open>c\<close> by \<open>floor(c * (1 - decayPercent / 100))\<close>, appends one decay event and leaves
  \<open>isRunning\<close> as it is; after call \<open>n \<le> 30\<close> the year is \<open>2 n\<close>.  The thirty-first call
  finds \<open>newYear = 62 > 60\<close>: it sets \<open>isRunning\<close> to false and changes neither the
  settings (capacity, year), nor the items, nor the events, logs and alerts.  From the
  default 1000000 KB at 5 percent the capacity is 950000 KB after one cycle and 214632 KB
  after thirty, and stays there.
\<close>

theorem thirty_cycles_then_stop:
  assumes "user w = Some uid" and "settings w = Some s"
      and "current_year s = 0" and "total_years s = 60" and "decay_interval_years s = 2"
      and "n \<le> 30"
  shows "settings ((processDecayEvent ^^ n) w) =
           Some (s\<lparr> current_year := 2 * int n,
                    current_capacity_kb :=
                      ((\<lambda>c. \<lfloor>js_mul (of_int c) (js_sub 1 (fl (decay_percent s / 100)))\<rfloor>) ^^ n)
                        (current_capacity_kb s) \<rparr>) \<and>
         length (decay_events ((processDecayEvent ^^ n) w)) = length (decay_events w) + n \<and>
         isRunning ((processDecayEvent ^^ n) w) = isRunning w \<and>
         (let w30 = (processDecayEvent ^^ 30) w; w31 = processDecayEvent w30 in
            map_option current_year (settings w30) = Some 60 \<and>
            isRunning w31 = False \<and>
            settings w31 = settings w30 \<and>
            archive_items w31 = archive_items w30 \<and>
            decay_events w31 = decay_events w30 \<and>
            degradation_logs w31 = degradation_logs w30 \<and>
            alerts w31 = alerts w30 \<and>
            alerts_table w31 = alerts_table w30)"
proof -
  have d: "0 \<le> decay_interval_years s" using assms(5) by simp
  have "current_year s + int n * decay_interval_years s \<le> total_years s"
    using assms(3-6) by simp
  from run_cycles [OF assms(1,2) d this]
  have part1: "settings ((processDecayEvent ^^ n) w) =
           Some (s\<lparr> current_year := 2 * int n,
                    current_capacity_kb :=
                      ((\<lambda>c. decayed_capacity c (decay_percent s)) ^^ n) (current_capacity_kb s) \<rparr>)"
    and part2: "length (decay_events ((processDecayEvent ^^ n) w)) = length (decay_events w) + n"
    and part2': "isRunning ((processDecayEvent ^^ n) w) = isRunning w"
    using assms(3,5) by (simp_all add: mult.commute)
  let ?w30 = "(processDecayEvent ^^ 30) w"
  let ?s30 = "s\<lparr> current_year := 60,
                 current_capacity_kb :=
                   ((\<lambda>c. decayed_capacity c (decay_percent s)) ^^ 30) (current_capacity_kb s) \<rparr>"
  have "current_year s + int 30 * decay_interval_years s \<le> total_years s"
    using assms(3-5) by simp
  from run_cycles [OF assms(1,2) d this]
  have s30: "settings ?w30 = Some ?s30" and u30: "user ?w30 = Some uid"
    using assms(3,5) by simp_all
  have over: "total_years ?s30 < current_year ?s30 + decay_interval_years ?s30"
    using assms(4,5) by simp
  have part3: "map_option current_year (settings ?w30) = Some 60 \<and>
               isRunning (processDecayEvent ?w30) = False \<and>
               settings (processDecayEvent ?w30) = settings ?w30 \<and>
               archive_items (processDecayEvent ?w30) = archive_items ?w30 \<and>
               decay_events (processDecayEvent ?w30) = decay_events ?w30 \<and>
               degradation_logs (processDecayEvent ?w30) = degradation_logs ?w30 \<and>
               alerts (processDecayEvent ?w30) = alerts ?w30 \<and>
               alerts_table (processDecayEvent ?w30) = alerts_table ?w30"
    unfolding processDecayEvent_terminal [OF u30 s30 over] using s30 by simp
  have f: "(\<lambda>c. decayed_capacity c (decay_percent s)) =
           (\<lambda>c. \<lfloor>js_mul (of_int c) (js_sub 1 (fl (decay_percent s / 100)))\<rfloor>)"
    by (simp add: decayed_capacity_def)
  show ?thesis using part1 part2 part2' part3 unfolding f by (simp add: Let_def)
qed

theorem thirty_cycles_then_stop_witness:
  "(let w = example_world initial_settings True [example_item ''a'' 1000 FULL (Some 10)];
        w1 = processDecayEvent w;
        w30 = (processDecayEvent ^^ 30) w;
        w31 = processDecayEvent w30
    in map_option current_capacity_kb (settings w) = Some 1000000 \<and>
       map_option current_year (settings w1) = Some 2 \<and>
       map_option current_capacity_kb (settings w1) = Some 950000 \<and>
       map_option current_year (settings w30) = Some 60 \<and>
       map_option current_capacity_kb (settings w30) = Some 214632 \<and>
       length (decay_events w30) = 30 \<and>
       isRunning w30 = True \<and>
       isRunning w31 = False \<and>
       map_option current_year (settings w31) = Some 60 \<and>
       map_option current_capacity_kb (settings w31) = Some 214632 \<and>
       length (decay_events w31) = 30)"
proof -
  let ?w = "example_world initial_settings True [example_item ''a'' 1000 FULL (Some 10)]"
  have u: "user ?w = Some ''u1''" and s: "settings ?w = Some initial_settings"
    and e: "decay_events ?w = []" and r: "isRunning ?w = True"
    by (simp_all add: example_world_def)
  have y: "current_year initial_settings = 0" and t: "total_years initial_settings = 60"
    and d: "decay_interval_years initial_settings = 2"
    and c: "current_capacity_kb initial_settings = 1000000"
    by (simp_all add: initial_settings_def)
  have n30: "(30::nat) \<le> 30" and n1: "(1::nat) \<le> 30" by simp_all
  have p: "decay_percent initial_settings = 5" by (simp add: initial_settings_def)
  note t30 = thirty_cycles_then_stop
    [OF u s y t d n30, folded decayed_capacity_def, unfolded p c default_capacity_after_thirty Let_def]
  note t1 = thirty_cycles_then_stop
    [OF u s y t d n1, folded decayed_capacity_def, unfolded p c Let_def]
  from t30 t1 s e r c default_capacity_steps(1) show ?thesis by (simp add: Let_def)
qed

section \<open>The alerts of the items\<close>

text \<open>
  Claim C8, as stated, fails on the severity.  Item \<open>a\<close>, score 85, moves from FULL to
  COMPRESSED: its alert has severity warning, where the claim has critical (score at least 80
  and not deleted).  Item \<open>b\<close>, score exactly 70, moves to DELETED: its alert has
  severity warning, where the claim has critical (score at least 70 and deleted); the test in
  the code is \<open>score > 70\<close>.  (The third alert is the storage alert of the cycle.)
\<close>

theorem alert_severity_counterexample:
  "map itemId (alerts (processDecayEvent severity_world)) = [Some ''a'', Some ''b'', None] \<and>
   map targetStage (alerts (processDecayEvent severity_world)) =
     [Some COMPRESSED, Some DELETED, None] \<and>
   map alert_semanticScore (alerts (processDecayEvent severity_world)) = [85, 70, 0] \<and>
   map severity (alerts (processDecayEvent severity_world)) = [Warning, Warning, Critical]"
  by code_simp

text \<open>
  Claim C8, amended.  In a decay cycle the alerts of the items correspond, one to one and in
  order, to the transitions whose item has a score of at least 80 (null counted as 0) or
  whose target stage is DELETED; no other transition raises an alert.  The severity is
  critical if the score is above 70 and the target is DELETED, and warning otherwise; the
  type is \<open>item_deleted\<close> for a deletion and \<open>high_value_risk\<close> otherwise.  The alerts are
  pushed on the alert list (after the storage alert of the cycle, if any) and appended to
  the \<open>alerts\<close> table.  In particular a single item of score 85 that moves from MINIMAL to
  DELETED raises exactly one alert, with severity critical and type \<open>item_deleted\<close>.
\<close>

theorem item_alerts_of_cycle:
  assumes "user w = Some uid" and "settings w = Some s"
      and "current_year s + decay_interval_years s \<le> total_years s"
  shows "let w' = processDecayEvent w;
             xs = sortedItems (select_items uid (archive_items w));
             S = storage_alerts (current_year s + decay_interval_years s)
                   (sum_list (map current_size_kb (select_items uid (archive_items w))))
                   (decayed_capacity (current_capacity_kb s) (decay_percent s))
         in \<exists>k A.
              map log_item_id (new_logs w w') = map item_id (take k xs) \<and>
              alerts w' = foldl (\<lambda>as a. a # take 99 as) (alerts w) (S @ A) \<and>
              alerts_table w' = alerts_table w @ map (alert_row_of uid) (S @ A) \<and>
              list_all2
                (\<lambda>item a.
                   itemId a = Some (item_id item) \<and>
                   targetStage a = Some (next_stage (stage item)) \<and>
                   severity a =
                     (if 70 < or_default (semantic_score item) 0 \<and> next_stage (stage item) = DELETED
                      then Critical else Warning) \<and>
                   alertType a =
                     (if next_stage (stage item) = DELETED then item_deleted else high_value_risk))
                (filter (\<lambda>item. 80 \<le> or_default (semantic_score item) 0 \<or>
                                  next_stage (stage item) = DELETED) (take k xs))
                A \<and>
              (archive_items w = [item] \<and> item_owner_id item = uid \<and> stage item = MINIMAL \<and>
               semantic_score item = Some 85 \<and>
               decayed_capacity (current_capacity_kb s) (decay_percent s) < current_size_kb item \<longrightarrow>
                 (\<exists>a. A = [a] \<and> itemId a = Some (item_id item) \<and> severity a = Critical \<and>
                      alertType a = item_deleted))"
proof -
  let ?xs = "sortedItems (select_items uid (archive_items w))"
  let ?yr = "current_year s + decay_interval_years s"
  let ?cap = "decayed_capacity (current_capacity_kb s) (decay_percent s)"
  let ?sb = "sum_list (map current_size_kb (select_items uid (archive_items w)))"
  let ?R = "\<lambda>item a.
                   itemId a = Some (item_id item) \<and>
                   targetStage a = Some (next_stage (stage item)) \<and>
                   severity a =
                     (if 70 < or_default (semantic_score item) 0 \<and> next_stage (stage item) = DELETED
                      then Critical else Warning) \<and>
                   alertType a =
                     (if next_stage (stage item) = DELETED then item_deleted else high_value_risk)"
  from processDecayEvent_alerts [OF assms]
  obtain k L A where k: "k \<le> length ?xs"
    and pos: "?cap < ?sb \<and> select_items uid (archive_items w) \<noteq> [] \<longrightarrow> 0 < k"
    and L: "list_all2 (logged_as uid (Some (new_event_id (decay_events w)))) (take k ?xs) L"
    and logs: "degradation_logs (processDecayEvent w) = degradation_logs w @ L"
    and A: "list_all2 (alert_of_item ?yr) (filter raises_alert (take k ?xs)) A"
    and al: "alerts (processDecayEvent w) =
               foldl (\<lambda>as a. a # take 99 as) (alerts w) (storage_alerts ?yr ?sb ?cap @ A)"
    and at: "alerts_table (processDecayEvent w) =
               alerts_table w @ map (alert_row_of uid) (storage_alerts ?yr ?sb ?cap @ A)"
    by blast
  have "list_all2 (\<lambda>item l. log_item_id l = item_id item) (take k ?xs) L"
    using L by (rule list_all2_mono) (simp add: logged_as_fields)
  then have "map log_item_id L = map item_id (take k ?xs)"
    by (induction rule: list_all2_induct) simp_all
  then have ids: "map log_item_id (new_logs w (processDecayEvent w)) = map item_id (take k ?xs)"
    by (simp add: new_logs_def logs)
  have R: "list_all2 ?R (filter raises_alert (take k ?xs)) A"
    using A by (rule list_all2_mono)
      (simp add: alert_of_item_fields raised_severity raised_type)
  have scen: "\<exists>a. A = [a] \<and> itemId a = Some (item_id item) \<and> severity a = Critical \<and>
                alertType a = item_deleted"
    if h: "archive_items w = [item] \<and> item_owner_id item = uid \<and> stage item = MINIMAL \<and>
           semantic_score item = Some 85 \<and> ?cap < current_size_kb item"
  proof -
    have sel: "select_items uid (archive_items w) = [item]"
      using h select_items_single [of item uid] by simp
    then have xs: "?xs = [item]" by (simp add: sortedItems_def)
    have "0 < k" using pos h sel by simp
    then have k1: "take k ?xs = [item]" using xs by (cases k) simp_all
    have ra: "raises_alert item" using h by (simp add: raises_alert_def)
    from R obtain a where a: "A = [a]" and Ra: "?R item a"
      unfolding k1 using ra by (cases A) (auto simp: list_all2_Cons1)
    show ?thesis using a Ra h by (simp add: or_default_def)
  qed
  have f: "filter raises_alert (take k ?xs) =
           filter (\<lambda>item. 80 \<le> or_default (semantic_score item) 0 \<or>
                           next_stage (stage item) = DELETED) (take k ?xs)"
    by (simp add: raises_alert_def [abs_def])
  show ?thesis
    unfolding Let_def
    using ids al at R [unfolded f] scen by (intro exI [of _ k] exI [of _ A] conjI impI)
qed

lemma high_value_world_facts:
  "decayed_capacity 100 50 = 50"
  "length (storage_alerts
     (current_year (initial_settings\<lparr> current_capacity_kb := 100, decay_percent := 50 \<rparr>) +
      decay_interval_years (initial_settings\<lparr> current_capacity_kb := 100, decay_percent := 50 \<rparr>))
     (sum_list (map current_size_kb (select_items ''u1'' (archive_items high_value_world))))
     (decayed_capacity
        (current_capacity_kb (initial_settings\<lparr> current_capacity_kb := 100, decay_percent := 50 \<rparr>))
        (decay_percent (initial_settings\<lparr> current_capacity_kb := 100, decay_percent := 50 \<rparr>)))) = 1"
  by code_simp+

theorem item_alerts_of_cycle_witness:
  "user high_value_world = Some ''u1'' \<and>
   (\<exists>a rest. alerts (processDecayEvent high_value_world) = a # rest \<and> itemId a = Some ''h'' \<and>
      severity a = Critical \<and> alertType a = item_deleted) \<and>
   length (alerts_table (processDecayEvent high_value_world)) = 2"
proof -
  let ?s = "initial_settings\<lparr> current_capacity_kb := 100, decay_percent := 50 \<rparr>"
  let ?item = "example_item ''h'' 100 MINIMAL (Some 85)"
  let ?S = "storage_alerts (current_year ?s + decay_interval_years ?s)
     (sum_list (map current_size_kb (select_items ''u1'' (archive_items high_value_world))))
     (decayed_capacity (current_capacity_kb ?s) (decay_percent ?s))"
  have u: "user high_value_world = Some ''u1''" and s: "settings high_value_world = Some ?s"
    and e: "alerts high_value_world = []" "alerts_table high_value_world = []"
    by (simp_all add: high_value_world_def example_world_def)
  have r: "current_year ?s + decay_interval_years ?s \<le> total_years ?s"
    by (simp add: initial_settings_def)
  have h: "archive_items high_value_world = [?item] \<and> item_owner_id ?item = ''u1'' \<and>
      stage ?item = MINIMAL \<and> semantic_score ?item = Some 85 \<and>
      decayed_capacity (current_capacity_kb ?s) (decay_percent ?s) < current_size_kb ?item"
    by (simp add: high_value_world_def example_world_def example_item_def initial_settings_def
          high_value_world_facts(1))
  from item_alerts_of_cycle [OF u s r, of ?item, unfolded Let_def]
  obtain k A where al: "alerts (processDecayEvent high_value_world) =
        foldl (\<lambda>as a. a # take 99 as) (alerts high_value_world) (?S @ A)"
    and at: "alerts_table (processDecayEvent high_value_world) =
        alerts_table high_value_world @ map (alert_row_of ''u1'') (?S @ A)"
    and sc: "archive_items high_value_world = [?item] \<and> item_owner_id ?item = ''u1'' \<and>
      stage ?item = MINIMAL \<and> semantic_score ?item = Some 85 \<and>
      decayed_capacity (current_capacity_kb ?s) (decay_percent ?s) < current_size_kb ?item \<longrightarrow>
        (\<exists>a. A = [a] \<and> itemId a = Some (item_id ?item) \<and> severity a = Critical \<and>
             alertType a = item_deleted)"
    by blast
  from sc h obtain a where a: "A = [a]" "itemId a = Some (item_id ?item)"
    "severity a = Critical" "alertType a = item_deleted"
    by blast
  have "alerts (processDecayEvent high_value_world) =
          a # take 99 (foldl (\<lambda>as a. a # take 99 as) [] ?S)"
    unfolding al a(1) e by simp
  moreover have "length (alerts_table (processDecayEvent high_value_world)) = 2"
    unfolding at a(1) e using high_value_world_facts(2) by simp
  moreover have "itemId a = Some ''h''" using a(2) by (simp add: example_item_def)
  ultimately show ?thesis using u a(3,4) by blast
qed

section \<open>The storage alert\<close>

text \<open>
  Claim C9 against the code.  Capacity 2000 KB decaying by 50 percent to 1000 KB, one item
  of 900 KB: the storage ratio at the start of the cycle is 0.9, between 0.8 and 1.0, and
  the claim has a storage alert of severity warning.  The cycle raises no alert: the test of
  the pressure against 80 stands inside the block that runs only when the storage exceeds
  the new capacity.
\<close>

theorem no_storage_alert_at_ninety_percent:
  "map storage_before_kb (decay_events (processDecayEvent ninety_percent_world)) = [900] \<and>
   map capacity_after_kb (decay_events (processDecayEvent ninety_percent_world)) = [1000] \<and>
   alerts (processDecayEvent ninety_percent_world) = [] \<and>
   alerts_table (processDecayEvent ninety_percent_world) = []"
  by code_simp

text \<open>
  More generally, a cycle whose storage does not exceed the new capacity raises no alert
  and degrades nothing.
\<close>

lemma no_pressure_no_alert:
  assumes "user w = Some uid" "settings w = Some s"
      and "current_year s + decay_interval_years s \<le> total_years s"
      and "sum_list (map current_size_kb (select_items uid (archive_items w)))
             \<le> decayed_capacity (current_capacity_kb s) (decay_percent s)"
  shows "alerts (processDecayEvent w) = alerts w"
    and "alerts_table (processDecayEvent w) = alerts_table w"
    and "archive_items (processDecayEvent w) = archive_items w"
    and "degradation_logs (processDecayEvent w) = degradation_logs w"
  using assms by (simp_all add: processDecayEvent_def Let_def degradation_phase_def)

text \<open>
  When the storage exceeds a positive capacity (below \<open>2^52\<close> KB) the pressure computed in
  binary64 is above 100.  So a storage alert, which is raised only in that case, is always
  critical: the warning severity that the code provides for it is never used.
\<close>

lemma pressure_constants:
  "fl (1 + 1 / 2 ^ 52) = 1 + 1 / 2 ^ 52"
  "fl (100 + 1 / 2 ^ 46) = 100 + 1 / 2 ^ 46"
  by code_simp+

lemma overflow_pressure_above_100:
  assumes "0 < cap" "cap < 2 ^ 52" "cap < sb"
  shows "jsnum_gt (jsnum_times (js_div (of_int sb) (of_int cap)) 100) 100"
proof -
  let ?q = "(of_int sb :: rat) / of_int cap"
  let ?d = "(1 + 1 / 2 ^ 52 :: rat)"
  have c: "(0::rat) < of_int cap" using assms(1) by simp
  have "(of_int cap :: rat) < of_int (2 ^ 52)" using assms(2) by (simp only: of_int_less_iff)
  then have c52: "(of_int cap :: rat) < 2 ^ 52" by simp
  have "(of_int cap :: rat) + 1 \<le> of_int sb"
    using assms(3) by (metis of_int_1 of_int_add of_int_le_iff zless_imp_add1_zle)
  then have "((of_int cap :: rat) + 1) / of_int cap \<le> ?q"
    using c by (intro divide_right_mono) simp_all
  moreover have "((of_int cap :: rat) + 1) / of_int cap = 1 + 1 / of_int cap"
    using c by (simp add: add_divide_distrib)
  ultimately have q1: "1 + 1 / of_int cap \<le> ?q" by simp
  have "(1::rat) / 2 ^ 52 \<le> 1 / of_int cap"
    using c c52 by (intro frac_le) simp_all
  then have "?d \<le> 1 + 1 / of_int cap" by (rule add_left_mono)
  then have dq: "?d \<le> ?q" using q1 by (rule order_trans)
  have "?d \<le> fl ?q"
    using fl_mono [of ?d ?q] dq pressure_constants(1) by simp
  then have "?d * 100 \<le> fl ?q * 100" by (intro mult_right_mono) simp_all
  moreover have "(100 + 1 / 2 ^ 46 :: rat) \<le> ?d * 100" by simp
  ultimately have "100 + 1 / 2 ^ 46 \<le> fl ?q * 100" by (rule order_trans [rotated])
  then have "fl (100 + 1 / 2 ^ 46) \<le> fl (fl ?q * 100)"
    by (intro fl_mono) simp_all
  then have "100 < fl (fl ?q * 100)" unfolding pressure_constants(2) by simp
  then show ?thesis using assms(1) by (simp add: js_div_def jsnum_times_def jsnum_gt_def)
qed

lemma storage_alert_is_critical:
  assumes "0 < cap" "cap < 2 ^ 52" "a \<in> set (storage_alerts yr sb cap)"
  shows "severity a = Critical"
proof -
  have "cap < sb" using assms(3) by (auto simp: storage_alerts_def Let_def split: if_splits)
  from overflow_pressure_above_100 [OF assms(1,2) this] assms(3)
  show ?thesis by (auto simp: storage_alerts_def storage_pressure_alert_def Let_def split: if_splits)
qed

section \<open>Items that were never scored\<close>




end
